theory Spec2Isabelle
  imports Main "HOL-Library.Sublist"
begin

section \<open>JavaScript values\<close>

text \<open>
  The converter of \<^verbatim>\<open>zodJsonSchemaCompat.ts\<close> inspects duck-typed values and
  builds JSON Schema objects out of object literals, so inputs and outputs live in
  one type of JavaScript values. An object is the list of its own enumerable
  properties in the order \<^verbatim>\<open>Object.entries\<close> enumerates them; a function is
  given by what a call without arguments does: \<open>JFun (Some v)\<close> returns \<open>v\<close>,
  \<open>JFun None\<close> throws. Numbers are integers (no fractional number and no NaN is
  ever computed), strings are byte strings.
\<close>

datatype jsval =
    JUndefined
  | JNull
  | JBool bool
  | JNum int
  | JStr string
  | JArr "jsval list"
  | JFun "jsval option"
  | JObj "(string \<times> jsval) list"

text \<open>Truthiness, as \<^verbatim>\<open>!v\<close>, \<^verbatim>\<open>a || b\<close>, \<^verbatim>\<open>a && b\<close> and \<^verbatim>\<open>filter(Boolean)\<close> test it.\<close>

fun truthy :: "jsval \<Rightarrow> bool" where
  "truthy JUndefined = False"
| "truthy JNull = False"
| "truthy (JBool b) = b"
| "truthy (JNum n) = (n \<noteq> 0)"
| "truthy (JStr s) = (s \<noteq> [])"
| "truthy (JArr xs) = True"
| "truthy (JFun f) = True"
| "truthy (JObj fs) = True"

fun typeof :: "jsval \<Rightarrow> string" where
  "typeof JUndefined = ''undefined''"
| "typeof JNull = ''object''"
| "typeof (JBool b) = ''boolean''"
| "typeof (JNum n) = ''number''"
| "typeof (JStr s) = ''string''"
| "typeof (JArr xs) = ''object''"
| "typeof (JFun f) = ''function''"
| "typeof (JObj fs) = ''object''"

text \<open>
  Property read \<^verbatim>\<open>v.k\<close> for the keys the module reads (none of them is an array
  index or \<^verbatim>\<open>length\<close>): an object yields its property or \<^verbatim>\<open>undefined\<close>, every
  other value \<^verbatim>\<open>undefined\<close>. \<open>optget\<close> is the optional chain \<^verbatim>\<open>v?.k\<close>, and the
  guarded reads of the module never reach \<^verbatim>\<open>null.k\<close> or \<^verbatim>\<open>undefined.k\<close>.
\<close>

fun get :: "jsval \<Rightarrow> string \<Rightarrow> jsval" where
  "get (JObj fs) k = (case map_of fs k of None \<Rightarrow> JUndefined | Some v \<Rightarrow> v)"
| "get _ k = JUndefined"

definition nullish :: "jsval \<Rightarrow> bool" where
  "nullish v = (v = JUndefined \<or> v = JNull)"

definition optget :: "jsval \<Rightarrow> string \<Rightarrow> jsval" where
  "optget v k = (if nullish v then JUndefined else get v k)"

text \<open>\<^verbatim>\<open>k in v\<close> for an object \<open>v\<close> (own properties; the module asks for no inherited one here).\<close>

fun has_key :: "string \<Rightarrow> jsval \<Rightarrow> bool" where
  "has_key k (JObj fs) = (k \<in> set (map fst fs))"
| "has_key k _ = False"

text \<open>\<^verbatim>\<open>a || b\<close> and \<^verbatim>\<open>a ?? b\<close> on values.\<close>

definition or_else :: "jsval \<Rightarrow> jsval \<Rightarrow> jsval" where
  "or_else a b = (if truthy a then a else b)"

definition coalesce :: "jsval \<Rightarrow> jsval \<Rightarrow> jsval" where
  "coalesce a b = (if nullish a then b else a)"

text \<open>Decimal digits of a number, as template strings print an index or a length.\<close>

definition digit :: "nat \<Rightarrow> char" where
  "digit n = ''0123456789'' ! (n mod 10)"

fun show_nat :: "nat \<Rightarrow> string" where
  "show_nat n = (if n < 10 then [digit n] else show_nat (n div 10) @ [digit (n mod 10)])"

declare show_nat.simps [simp del]

text \<open>\<^verbatim>\<open>Object.entries(v)\<close> for a truthy \<open>v\<close>, and \<^verbatim>\<open>Object.values(v)\<close>.\<close>

fun entries :: "jsval \<Rightarrow> (string \<times> jsval) list" where
  "entries (JObj fs) = fs"
| "entries (JArr xs) = zip (map show_nat [0..<length xs]) xs"
| "entries (JStr s) = zip (map show_nat [0..<length s]) (map (\<lambda>c. JStr [c]) s)"
| "entries _ = []"

definition object_values :: "jsval \<Rightarrow> jsval list" where
  "object_values v = map snd (entries v)"

fun isArray :: "jsval \<Rightarrow> bool" where
  "isArray (JArr xs) = True"
| "isArray _ = False"

fun elements :: "jsval \<Rightarrow> jsval list" where
  "elements (JArr xs) = xs"
| "elements _ = []"

section \<open>The node introspector\<close>

text \<open>
  Modelled from the spec: \<^verbatim>\<open>readZodDefinition\<close> of \<^verbatim>\<open>zodCompat.ts\<close>, which is not
  among the sources. Section 4.1 of the specification: the introspector probes a
  fixed, ordered set of candidate field names and returns the first match, and is
  absent for anything that is not a schema node. The candidates for the definition
  are the ones the converter's comments and its tests rely on: \<^verbatim>\<open>_zod.def\<close> (newer
  representation), \<^verbatim>\<open>_def\<close> (older one), \<^verbatim>\<open>def\<close>.
\<close>

definition readZodDefinition :: "jsval \<Rightarrow> jsval" where
  "readZodDefinition input =
     (if typeof input \<noteq> ''object'' \<or> input = JNull then JUndefined
      else or_else (optget (get input ''_zod'') ''def'')
             (or_else (get input ''_def'') (get input ''def'')))"

definition lower_char :: "char \<Rightarrow> char" where
  "lower_char c =
     (case map_of (zip ''ABCDEFGHIJKLMNOPQRSTUVWXYZ'' ''abcdefghijklmnopqrstuvwxyz'') c of
        None \<Rightarrow> c | Some l \<Rightarrow> l)"

definition toLowerCase :: "string \<Rightarrow> string" where
  "toLowerCase s = map lower_char s"

text \<open>
  Modelled from the spec: \<^verbatim>\<open>readZodType\<close> of \<^verbatim>\<open>zodCompat.ts\<close>, which is not among the
  sources. The kind is the string under \<^verbatim>\<open>typeName\<close> or \<^verbatim>\<open>type\<close> of the definition,
  in lower case and without the library's \<^verbatim>\<open>zod\<close> prefix, so that \<^verbatim>\<open>ZodString\<close>
  (older representation) and \<^verbatim>\<open>string\<close> (newer one) are both the kind \<^verbatim>\<open>string\<close>
  that the converter and its tests expect.
\<close>

definition readZodType :: "jsval \<Rightarrow> string option" where
  "readZodType input =
     (let def = readZodDefinition input in
      if \<not> truthy def then None
      else
        let rawType =
          (if typeof (get def ''typeName'') = ''string'' \<and> truthy (get def ''typeName'')
           then get def ''typeName''
           else if typeof (get def ''type'') = ''string'' then get def ''type''
           else JBool False)
        in (case rawType of
              JStr raw \<Rightarrow>
                (let lower = toLowerCase raw in
                 Some (if prefix ''zod'' lower then drop 3 lower else lower))
            | _ \<Rightarrow> None))"

text \<open>\<^verbatim>\<open>readZodType(v) ?? ''\<close>.\<close>

definition typeOrEmpty :: "jsval \<Rightarrow> string" where
  "typeOrEmpty v = (case readZodType v of None \<Rightarrow> [] | Some t \<Rightarrow> t)"

section \<open>Constants of the converter\<close>

definition JSON_SCHEMA_DRAFT_07 :: string where
  "JSON_SCHEMA_DRAFT_07 = ''http://json-schema.org/draft-07/schema#''"

definition OPTIONAL_WRAPPERS :: "string list" where
  "OPTIONAL_WRAPPERS = [''optional'']"

definition DECORATOR_WRAPPERS :: "string list" where
  "DECORATOR_WRAPPERS =
     [''brand'', ''branded'', ''catch'', ''default'', ''effects'', ''pipeline'', ''pipe'',
      ''prefault'', ''readonly'', ''refinement'', ''transform'']"

definition SIMPLE_TYPE_MAPPING :: "(string \<times> jsval) list" where
  "SIMPLE_TYPE_MAPPING =
     [(''string'', JObj [(''type'', JStr ''string'')]),
      (''number'', JObj [(''type'', JStr ''number'')]),
      (''bigint'', JObj [(''type'', JStr ''integer'')]),
      (''boolean'', JObj [(''type'', JStr ''boolean'')]),
      (''date'', JObj [(''type'', JStr ''string''), (''format'', JStr ''date-time'')])]"

section \<open>Sizes of the parts of a value\<close>

lemma size_map_of:
  "map_of fs k = Some v \<Longrightarrow> size v < Suc (size_list (size_prod (\<lambda>_. 0) size) fs)"
  by (induction fs) (auto split: if_splits)

lemma size_get_obj: "size (get (JObj fs) k) < size (JObj fs)"
  by (auto split: option.splits dest: size_map_of)

lemma size_get_le: "size (get v k) \<le> size v"
  by (cases v) (auto split: option.splits dest: size_map_of simp: less_imp_le)

lemma size_optget_le: "size (optget v k) \<le> size v"
  by (simp add: optget_def size_get_le)

lemma size_or_else: "size a \<le> n \<Longrightarrow> size b \<le> n \<Longrightarrow> size (or_else a b) \<le> n"
  by (simp add: or_else_def)

lemma size_coalesce: "size a \<le> n \<Longrightarrow> size b \<le> n \<Longrightarrow> size (coalesce a b) \<le> n"
  by (simp add: coalesce_def)

lemma size_readZodDefinition_le: "size (readZodDefinition v) \<le> size v"
  unfolding readZodDefinition_def
  by (auto intro!: size_or_else order_trans [OF size_optget_le] size_get_le)

lemma readZodDefinition_truthy_size:
  assumes "truthy (readZodDefinition v)"
  shows "size (readZodDefinition v) < size v"
proof (cases v)
  case (JObj fs)
  have a: "size (optget (get (JObj fs) ''_zod'') ''def'') < size (JObj fs)"
    by (rule le_less_trans [OF size_optget_le size_get_obj])
  have b: "size (get (JObj fs) ''_def'') < size (JObj fs)"
    and c: "size (get (JObj fs) ''def'') < size (JObj fs)"
    by (rule size_get_obj)+
  show ?thesis
    using a b c unfolding JObj readZodDefinition_def or_else_def by simp
next
  case (JArr xs)
  with assms show ?thesis by (simp add: readZodDefinition_def or_else_def optget_def nullish_def)
qed (use assms in \<open>simp_all add: readZodDefinition_def\<close>)

lemma readZodType_Some_truthy: "readZodType v = Some t \<Longrightarrow> truthy (readZodDefinition v)"
  by (auto simp: readZodType_def Let_def split: if_splits)

text \<open>A node with a kind has an object for its definition: the builders never see a primitive.\<close>

lemma get_string_object: "typeof (get d k) = ''string'' \<Longrightarrow> \<exists>fs. d = JObj fs"
  by (cases d) simp_all

lemma definition_is_object:
  assumes "readZodType v = Some t"
  shows "\<exists>fs. readZodDefinition v = JObj fs"
proof -
  from assms have "typeof (get (readZodDefinition v) ''typeName'') = ''string'' \<or>
      typeof (get (readZodDefinition v) ''type'') = ''string''"
    by (auto simp: readZodType_def Let_def split: if_splits jsval.splits)
  then show ?thesis by (auto dest: get_string_object)
qed

section \<open>The decorator unwrapper\<close>

text \<open>
  \<^verbatim>\<open>unwrapDecorators\<close>: while the kind of the current node is a decorator, take the
  first of the definition's inner fields that is neither \<^verbatim>\<open>undefined\<close> nor
  \<^verbatim>\<open>null\<close>; stop at a falsy one or at one identical to the current node. In a value
  of \<open>jsval\<close> a node is never identical to one of its own parts, so the equality
  test of the model never succeeds; the store model below is where it does.
\<close>

definition decoratorNext :: "jsval \<Rightarrow> jsval" where
  "decoratorNext current =
     (let def = readZodDefinition current in
      coalesce (optget def ''innerType'')
        (coalesce (optget def ''schema'')
          (coalesce (optget def ''base'')
            (coalesce (optget def ''type'')
              (coalesce (optget def ''wrapped'') (optget def ''underlying''))))))"

lemma size_decoratorNext:
  assumes "truthy (readZodDefinition current)"
  shows "size (decoratorNext current) < size current"
proof -
  have "size (decoratorNext current) \<le> size (readZodDefinition current)"
    unfolding decoratorNext_def Let_def
    by (intro size_coalesce size_optget_le)
  with readZodDefinition_truthy_size [OF assms] show ?thesis by simp
qed

function unwrapDecorators :: "jsval \<Rightarrow> jsval" where
  "unwrapDecorators current =
     (if typeOrEmpty current \<in> set DECORATOR_WRAPPERS then
        (let next = decoratorNext current in
         if \<not> truthy next \<or> next = current then current
         else unwrapDecorators next)
      else current)"
  by pat_completeness auto
termination
proof (relation "measure size")
  fix current nxt
  assume dec: "typeOrEmpty current \<in> set DECORATOR_WRAPPERS"
    and nx: "nxt = decoratorNext current"
  from dec obtain t where "readZodType current = Some t"
    by (auto simp: typeOrEmpty_def DECORATOR_WRAPPERS_def split: option.splits)
  then have "truthy (readZodDefinition current)" by (rule readZodType_Some_truthy)
  then show "(nxt, current) \<in> measure size"
    by (simp add: size_decoratorNext nx)
qed simp

declare unwrapDecorators.simps [simp del]

text \<open>In a value the inner node of a decorator is a proper part of it, never the node itself.\<close>

lemma decoratorNext_differs:
  "typeOrEmpty current \<in> set DECORATOR_WRAPPERS \<Longrightarrow> decoratorNext current \<noteq> current"
proof
  assume dec: "typeOrEmpty current \<in> set DECORATOR_WRAPPERS"
    and eq: "decoratorNext current = current"
  from dec obtain t where "readZodType current = Some t"
    by (auto simp: typeOrEmpty_def DECORATOR_WRAPPERS_def split: option.splits)
  then have "size (decoratorNext current) < size current"
    by (intro size_decoratorNext readZodType_Some_truthy)
  with eq show False by simp
qed

lemma size_unwrapDecorators_le: "size (unwrapDecorators v) \<le> size v"
proof (induction v rule: unwrapDecorators.induct)
  case (1 current)
  show ?case
  proof (cases "typeOrEmpty current \<in> set DECORATOR_WRAPPERS \<and>
      \<not> (\<not> truthy (decoratorNext current) \<or> decoratorNext current = current)")
    case True
    then obtain t where "readZodType current = Some t"
      by (auto simp: typeOrEmpty_def DECORATOR_WRAPPERS_def split: option.splits)
    then have "size (decoratorNext current) < size current"
      by (intro size_decoratorNext readZodType_Some_truthy)
    moreover have "size (unwrapDecorators (decoratorNext current)) \<le> size (decoratorNext current)"
      using True by (intro "1.IH") auto
    moreover have "unwrapDecorators current = unwrapDecorators (decoratorNext current)"
      using True by (subst unwrapDecorators.simps) (simp add: Let_def)
    ultimately show ?thesis by simp
  next
    case False
    then have "unwrapDecorators current = current"
      by (subst unwrapDecorators.simps) (auto simp: Let_def)
    then show ?thesis by simp
  qed
qed

section \<open>Helpers of the builders\<close>

text \<open>
  \<^verbatim>\<open>extractFirst(def, ...keys)\<close>: the first key present in \<open>def\<close> with a value
  other than \<^verbatim>\<open>undefined\<close>. The builders are reached with an object for \<open>def\<close>
  only (a node has a kind only if its definition is an object), so \<^verbatim>\<open>key in def\<close>
  is never asked of a primitive.
\<close>

fun extractFirstLoop :: "jsval \<Rightarrow> string list \<Rightarrow> jsval" where
  "extractFirstLoop def [] = JUndefined"
| "extractFirstLoop def (key # keys) =
     (if has_key key def \<and> get def key \<noteq> JUndefined then get def key
      else extractFirstLoop def keys)"

definition extractFirst :: "jsval \<Rightarrow> string list \<Rightarrow> jsval" where
  "extractFirst def keys = (if \<not> truthy def then JUndefined else extractFirstLoop def keys)"

definition coerceArray :: "jsval \<Rightarrow> jsval list" where
  "coerceArray v = (if isArray v then elements v else if v = JUndefined then [] else [v])"

text \<open>\<^verbatim>\<open>try { return shape() } catch { return undefined }\<close>, for a \<open>shape\<close> that is a function.\<close>

definition callShape :: "jsval \<Rightarrow> jsval" where
  "callShape f = (case f of JFun (Some r) \<Rightarrow> r | _ \<Rightarrow> JUndefined)"

definition readShape :: "jsval \<Rightarrow> jsval" where
  "readShape input =
     (if typeof input \<noteq> ''object'' \<or> input = JNull then JUndefined
      else
        let candidateShape = get input ''shape'' in
        if truthy candidateShape \<and> typeof candidateShape = ''object'' then candidateShape
        else if typeof candidateShape = ''function'' then callShape candidateShape
        else
          let def = readZodDefinition input; shape = optget def ''shape'' in
          if truthy shape \<and> typeof shape = ''object'' then shape
          else if typeof shape = ''function'' then callShape shape
          else JUndefined)"

definition buildLiteral :: "jsval \<Rightarrow> jsval" where
  "buildLiteral def =
     (if \<not> truthy def then JUndefined
      else
        let literal = extractFirst def [''value'', ''literal''] in
        if literal = JUndefined then JUndefined
        else JObj [(''const'', literal),
                   (''type'', JStr (if literal = JNull then ''null'' else typeof literal))])"

definition buildEnum :: "jsval \<Rightarrow> jsval" where
  "buildEnum def =
     (if \<not> truthy def then JUndefined
      else if isArray (get def ''values'') then JObj [(''enum'', get def ''values'')]
      else if isArray (get def ''options'') then JObj [(''enum'', get def ''options'')]
      else if truthy (get def ''values'') \<and> typeof (get def ''values'') = ''object''
        then JObj [(''enum'', JArr (object_values (get def ''values'')))]
      else if truthy (get def ''enum'') \<and> typeof (get def ''enum'') = ''object''
        then JObj [(''enum'', JArr (object_values (get def ''enum'')))]
      else JUndefined)"

text \<open>
  \<^verbatim>\<open>type in SIMPLE_TYPE_MAPPING\<close> also finds what the table inherits from
  \<^verbatim>\<open>Object.prototype\<close>; \<^verbatim>\<open>SIMPLE_TYPE_MAPPING[type]\<close> is then that member, a
  function (which the converter returns and never calls) or, for \<^verbatim>\<open>__proto__\<close>, the
  prototype, an object without enumerable properties.
\<close>

definition OBJECT_PROTOTYPE :: "(string \<times> jsval) list" where
  "OBJECT_PROTOTYPE =
     [(''constructor'', JFun (Some (JObj []))),
      (''__proto__'', JObj []),
      (''hasOwnProperty'', JFun (Some (JBool False))),
      (''isPrototypeOf'', JFun (Some (JBool False))),
      (''propertyIsEnumerable'', JFun (Some (JBool False))),
      (''toLocaleString'', JFun (Some (JStr ''[object Object]''))),
      (''toString'', JFun (Some (JStr ''[object Object]''))),
      (''valueOf'', JFun (Some (JObj []))),
      (''__defineGetter__'', JFun (Some JUndefined)),
      (''__defineSetter__'', JFun (Some JUndefined)),
      (''__lookupGetter__'', JFun (Some JUndefined)),
      (''__lookupSetter__'', JFun (Some JUndefined))]"

definition simpleType :: "string \<Rightarrow> jsval option" where
  "simpleType t = map_of (SIMPLE_TYPE_MAPPING @ OBJECT_PROTOTYPE) t"

section \<open>Optional wrappers of a property\<close>

text \<open>
  The \<^verbatim>\<open>while\<close> loop of \<^verbatim>\<open>convertProperty\<close>: it returns the node it stops at and
  the flag \<^verbatim>\<open>optional\<close>.
\<close>

definition optionalNext :: "jsval \<Rightarrow> jsval" where
  "optionalNext current = unwrapDecorators (optget (readZodDefinition current) ''innerType'')"

lemma size_optionalNext:
  assumes "truthy (readZodDefinition current)"
  shows "size (optionalNext current) < size current"
proof -
  have "size (optionalNext current) \<le> size (optget (readZodDefinition current) ''innerType'')"
    unfolding optionalNext_def by (rule size_unwrapDecorators_le)
  also have "\<dots> \<le> size (readZodDefinition current)" by (rule size_optget_le)
  also have "\<dots> < size current" by (rule readZodDefinition_truthy_size [OF assms])
  finally show ?thesis .
qed

function optionalLoop :: "jsval \<Rightarrow> bool \<Rightarrow> jsval \<times> bool" where
  "optionalLoop current optional =
     (if typeOrEmpty current \<in> set OPTIONAL_WRAPPERS then
        (let nxt = optionalNext current in
         if \<not> truthy nxt \<or> nxt = current then (current, True)
         else optionalLoop nxt True)
      else (current, optional))"
  by pat_completeness auto
termination
proof (relation "measure (\<lambda>(current, optional). size current)")
  fix current :: jsval and optional :: bool and nxt
  assume opt: "typeOrEmpty current \<in> set OPTIONAL_WRAPPERS"
    and nx: "nxt = optionalNext current"
  from opt obtain t where "readZodType current = Some t"
    by (auto simp: typeOrEmpty_def OPTIONAL_WRAPPERS_def split: option.splits)
  then have "truthy (readZodDefinition current)" by (rule readZodType_Some_truthy)
  then show "((nxt, True), (current, optional)) \<in> measure (\<lambda>(current, optional). size current)"
    by (simp add: size_optionalNext nx)
qed simp

declare optionalLoop.simps [simp del]

lemma size_optionalLoop_le: "size (fst (optionalLoop v b)) \<le> size v"
proof (induction v b rule: optionalLoop.induct)
  case (1 current optional)
  show ?case
  proof (cases "typeOrEmpty current \<in> set OPTIONAL_WRAPPERS \<and>
      \<not> (\<not> truthy (optionalNext current) \<or> optionalNext current = current)")
    case True
    then obtain t where "readZodType current = Some t"
      by (auto simp: typeOrEmpty_def OPTIONAL_WRAPPERS_def split: option.splits)
    then have "size (optionalNext current) < size current"
      by (intro size_optionalNext readZodType_Some_truthy)
    moreover have "size (fst (optionalLoop (optionalNext current) True)) \<le> size (optionalNext current)"
      using True by (intro "1.IH") auto
    moreover have "optionalLoop current optional = optionalLoop (optionalNext current) True"
      using True by (subst optionalLoop.simps) (simp add: Let_def)
    ultimately show ?thesis by simp
  next
    case False
    then have "fst (optionalLoop current optional) = current"
      by (subst optionalLoop.simps) (auto simp: Let_def)
    then show ?thesis by simp
  qed
qed

section \<open>The loop of buildObjectSchema\<close>

text \<open>
  The \<^verbatim>\<open>for\<close> loop over \<^verbatim>\<open>Object.entries(shape)\<close>, with the property converter
  it calls as a parameter: it returns \<^verbatim>\<open>undefined\<close> at the first field without a
  schema, and otherwise stores the schema under the field's key and pushes the key
  of a field that is not optional.

  \<open>set_property\<close> is the assignment \<^verbatim>\<open>properties[key] = schema\<close> to an ordinary
  object: \<open>assign\<close> adds the property or overwrites it in place, except that for
  the key \<^verbatim>\<open>__proto__\<close> the assignment reaches the setter that \<^verbatim>\<open>Object.prototype\<close>
  provides, which replaces the prototype of the object and adds no property to it.
  The prototype is not among the own enumerable properties that a value of the model
  lists, so the list stays as it is.
\<close>

fun assign :: "(string \<times> jsval) list \<Rightarrow> string \<Rightarrow> jsval \<Rightarrow> (string \<times> jsval) list" where
  "assign [] key v = [(key, v)]"
| "assign ((k, w) # ps) key v =
     (if k = key then (k, v) # ps else (k, w) # assign ps key v)"

definition set_property :: "(string \<times> jsval) list \<Rightarrow> string \<Rightarrow> jsval \<Rightarrow> (string \<times> jsval) list" where
  "set_property properties key v = (if key = ''__proto__'' then properties else assign properties key v)"

lemma set_property_simps [simp]:
  "key \<noteq> ''__proto__'' \<Longrightarrow> set_property ps key v = assign ps key v"
  "set_property ps ''__proto__'' v = ps"
  by (simp_all add: set_property_def)

fun objectLoop ::
  "(jsval \<Rightarrow> jsval \<times> bool) \<Rightarrow> (string \<times> jsval) list \<Rightarrow> (string \<times> jsval) list \<Rightarrow> string list \<Rightarrow> jsval"
where
  "objectLoop cp [] properties required =
     JObj [(''type'', JStr ''object''), (''properties'', JObj properties),
           (''required'', JArr (map JStr required)), (''additionalProperties'', JBool False)]"
| "objectLoop cp ((key, field) # rest) properties required =
     (let (schema, optional) = cp field in
      if \<not> truthy schema then JUndefined
      else objectLoop cp rest (set_property properties key schema)
             (if \<not> optional then required @ [key] else required))"

lemma objectLoop_cong [fundef_cong]:
  assumes "es = es'" "ps = ps'" "rs = rs'"
    and "\<And>key field. (key, field) \<in> set es' \<Longrightarrow> cp field = cp' field"
  shows "objectLoop cp es ps rs = objectLoop cp' es' ps' rs'"
  using assms(4) unfolding assms(1-3)
proof (induction es' arbitrary: ps' rs')
  case Nil
  show ?case by simp
next
  case (Cons e es')
  obtain key field where e: "e = (key, field)" by (cases e)
  have hd: "cp field = cp' field" using Cons.prems [of key field] by (simp add: e)
  have rest: "cp f = cp' f" if "(k, f) \<in> set es'" for k f
    using Cons.prems [of k f] that by simp
  have tl: "objectLoop cp es' p r = objectLoop cp' es' p r" for p r
    by (rule Cons.IH) (rule rest)
  show ?case by (simp add: e hd tl split: prod.splits)
qed

section \<open>The manual recursive converter\<close>

lemma get_defined_truthy: "get v k \<noteq> JUndefined \<Longrightarrow> truthy v"
  by (cases v) auto

lemma size_callShape_le: "size (callShape f) \<le> size f"
  by (auto simp: callShape_def split: jsval.splits option.splits)

lemma size_readShape:
  assumes "truthy (readShape v)"
  shows "size (readShape v) < size v"
proof (cases v)
  case (JObj fs)
  have g: "size (get (JObj fs) k) < size (JObj fs)" for k by (rule size_get_obj)
  have c: "size (callShape (get (JObj fs) k)) < size (JObj fs)" for k
    by (rule le_less_trans [OF size_callShape_le g])
  have d: "size (optget (readZodDefinition (JObj fs)) k) \<le> size (readZodDefinition (JObj fs))" for k
    by (rule size_optget_le)
  have nd: "size (readZodDefinition (JObj fs)) < size (JObj fs)"
    if "truthy (optget (readZodDefinition (JObj fs)) ''shape'')"
    using that by (intro readZodDefinition_truthy_size get_defined_truthy [of _ "''shape''"])
      (auto simp: optget_def nullish_def split: if_splits)
  have nd': "size (readZodDefinition (JObj fs)) < size (JObj fs)"
    if "typeof (optget (readZodDefinition (JObj fs)) ''shape'') = ''function''"
    using that by (intro readZodDefinition_truthy_size get_defined_truthy [of _ "''shape''"])
      (auto simp: optget_def nullish_def split: if_splits)
  have e: "size (callShape (optget (readZodDefinition (JObj fs)) ''shape'')) < size (JObj fs)"
    if "typeof (optget (readZodDefinition (JObj fs)) ''shape'') = ''function''"
    using le_less_trans [OF size_callShape_le le_less_trans [OF d nd' [OF that]]] .
  show ?thesis
    using assms g [of "''shape''"] c [of "''shape''"] e le_less_trans [OF d [of "''shape''"] nd]
    unfolding JObj readShape_def Let_def
    by (auto split: if_splits)
next
  case (JArr xs)
  with assms show ?thesis
    by (simp add: readShape_def readZodDefinition_def callShape_def or_else_def optget_def nullish_def)
qed (use assms in \<open>simp_all add: readShape_def\<close>)

lemma size_entries_le: "(k, f) \<in> set (entries shape) \<Longrightarrow> size f \<le> size shape"
proof (cases shape)
  case (JObj fs)
  assume "(k, f) \<in> set (entries shape)"
  then have "(k, f) \<in> set fs" by (simp add: JObj)
  then have "size f < Suc (size_list (size_prod (\<lambda>_. 0) size) fs)"
    by (induction fs) auto
  then show ?thesis by (simp add: JObj)
next
  case (JArr xs)
  assume "(k, f) \<in> set (entries shape)"
  then have "f \<in> set xs" by (auto simp: JArr dest: set_zip_rightD)
  then have "size f < Suc (size_list size xs)"
    by (induction xs) auto
  then show ?thesis by (simp add: JArr)
next
  case (JStr s)
  assume "(k, f) \<in> set (entries shape)"
  then have "f \<in> set (map (\<lambda>c. JStr [c]) s)" by (auto simp: JStr dest: set_zip_rightD)
  then show ?thesis by (auto simp: JStr)
qed auto

lemma size_coerceArray_le: "x \<in> set (coerceArray v) \<Longrightarrow> size x \<le> size v"
proof (cases v)
  case (JArr xs)
  assume "x \<in> set (coerceArray v)"
  then have "x \<in> set xs" by (simp add: JArr coerceArray_def)
  then have "size x < Suc (size_list size xs)"
    by (induction xs) auto
  then show ?thesis by (simp add: JArr)
qed (auto simp: coerceArray_def)

lemma size_extractFirstLoop_le: "size (extractFirstLoop def keys) \<le> size def"
  by (induction keys) (auto simp: size_get_le)

lemma size_extractFirst_le: "size (extractFirst def keys) \<le> size def"
  by (simp add: extractFirst_def size_extractFirstLoop_le)

lemma size_definition_of_unwrapped:
  assumes "readZodType (unwrapDecorators v) = Some t"
  shows "size (readZodDefinition (unwrapDecorators v)) < size v"
  using readZodDefinition_truthy_size [OF readZodType_Some_truthy [OF assms]]
    size_unwrapDecorators_le [of v] by simp

lemma size_property_node:
  assumes "optionalLoop (unwrapDecorators v) b = (current, optional)"
  shows "size current \<le> size v"
  using size_optionalLoop_le [of "unwrapDecorators v" b] size_unwrapDecorators_le [of v] assms
  by simp

lemma size_field_of_shape:
  assumes "truthy (readShape v)" "(k, f) \<in> set (entries (readShape v))"
  shows "size f < size v"
  using size_entries_le [OF assms(2)] size_readShape [OF assms(1)] by simp

text \<open>
  No step of the manual converter throws: every property is read from an object or
  through \<^verbatim>\<open>?.\<close>, \<^verbatim>\<open>key in def\<close> is asked of an object (\<open>definition_is_object\<close>),
  and the one call of a foreign function, the shape accessor, is inside a \<^verbatim>\<open>try\<close>.
  So the functions below return a value on every input.
\<close>

text \<open>
  \<^verbatim>\<open>convertSchema\<close> and the builders it dispatches to. \<^verbatim>\<open>undefined\<close> is the
  absent schema; the builders test their children for truthiness, as the source does.
  The recursion descends into parts of the value, which is what its termination
  proof uses.
\<close>

function convertSchema :: "jsval \<Rightarrow> jsval"
  and buildObjectSchema :: "jsval \<Rightarrow> jsval"
  and convertProperty :: "jsval \<Rightarrow> jsval \<times> bool"
  and buildArraySchema :: "jsval \<Rightarrow> jsval"
  and buildTupleSchema :: "jsval \<Rightarrow> jsval"
  and buildUnionSchema :: "jsval \<Rightarrow> jsval"
  and buildIntersectionSchema :: "jsval \<Rightarrow> jsval"
  and buildRecordSchema :: "jsval \<Rightarrow> jsval"
  and buildMapSchema :: "jsval \<Rightarrow> jsval"
  and buildSetSchema :: "jsval \<Rightarrow> jsval"
  and buildNullableSchema :: "jsval \<Rightarrow> jsval"
where
  "convertSchema value =
     (if value = JUndefined then JUndefined
      else
        let unwrapped = unwrapDecorators value;
            def = readZodDefinition unwrapped
        in (case readZodType unwrapped of
              None \<Rightarrow> JUndefined
            | Some type \<Rightarrow>
                if type = [] then JUndefined
                else (case simpleType type of
                  Some entry \<Rightarrow> entry
                | None \<Rightarrow>
                    if type = ''object'' then buildObjectSchema unwrapped
                    else if type = ''array'' then buildArraySchema def
                    else if type = ''tuple'' then buildTupleSchema def
                    else if type = ''union'' then buildUnionSchema def
                    else if type = ''intersection'' then buildIntersectionSchema def
                    else if type = ''literal'' then buildLiteral def
                    else if type = ''enum'' \<or> type = ''nativeenum'' then buildEnum def
                    else if type = ''record'' then buildRecordSchema def
                    else if type = ''map'' then buildMapSchema def
                    else if type = ''set'' then buildSetSchema def
                    else if type = ''nullable'' then buildNullableSchema def
                    else JUndefined)))"
| "buildObjectSchema value =
     (let shape = readShape value in
      if \<not> truthy shape then JUndefined
      else objectLoop convertProperty (entries shape) [] [])"
| "convertProperty value =
     (let (current, optional) = optionalLoop (unwrapDecorators value) False
      in (convertSchema current, optional))"
| "buildArraySchema def =
     (let items = convertSchema (extractFirst def [''element'', ''items'', ''type'']) in
      if truthy items then JObj [(''type'', JStr ''array''), (''items'', items)] else JUndefined)"
| "buildTupleSchema def =
     (let items = filter truthy (map convertSchema (coerceArray (optget def ''items''))) in
      if length items = 0 then JUndefined
      else
        let schema = [(''type'', JStr ''array''), (''items'', JArr items),
                      (''minItems'', JNum (int (length items)))]
        in if \<not> truthy (optget def ''rest'')
           then JObj (schema @ [(''maxItems'', JNum (int (length items)))])
           else JObj schema)"
| "buildUnionSchema def =
     (let options = filter truthy (map convertSchema
            (coerceArray (coalesce (optget def ''options'') (optget def ''schemas''))))
      in if length options \<noteq> 0 then JObj [(''anyOf'', JArr options)] else JUndefined)"
| "buildIntersectionSchema def =
     (let left = convertSchema (optget def ''left'');
          right = convertSchema (optget def ''right'')
      in if truthy left \<and> truthy right then JObj [(''allOf'', JArr [left, right])]
         else JUndefined)"
| "buildRecordSchema def =
     (let valueSchema = convertSchema (coalesce (optget def ''valueType'') (optget def ''values''))
      in if truthy valueSchema
         then JObj [(''type'', JStr ''object''), (''additionalProperties'', valueSchema)]
         else JUndefined)"
| "buildMapSchema def =
     (let valueSchema = convertSchema (coalesce (optget def ''valueType'') (optget def ''values''))
      in if truthy valueSchema
         then JObj [(''type'', JStr ''array''), (''items'', valueSchema)]
         else JUndefined)"
| "buildSetSchema def =
     (let valueSchema = convertSchema (optget def ''valueType'')
      in if truthy valueSchema
         then JObj [(''type'', JStr ''array''), (''items'', valueSchema),
                    (''uniqueItems'', JBool True)]
         else JUndefined)"
| "buildNullableSchema def =
     (let inner = convertSchema (coalesce (optget def ''innerType'') (optget def ''type''))
      in if truthy inner
         then JObj [(''anyOf'', JArr [inner, JObj [(''type'', JStr ''null'')]])]
         else JUndefined)"
  by pat_completeness auto
termination
proof (relation "measure (\<lambda>x. case x of
      Inl (Inl (Inl v)) \<Rightarrow> 4 * size v + 1
    | Inl (Inl (Inr v)) \<Rightarrow> 4 * size v
    | Inl (Inr (Inl v)) \<Rightarrow> 4 * size v + 2
    | Inl (Inr (Inr (Inl d))) \<Rightarrow> 4 * size d + 3
    | Inl (Inr (Inr (Inr d))) \<Rightarrow> 4 * size d + 3
    | Inr (Inl (Inl d)) \<Rightarrow> 4 * size d + 3
    | Inr (Inl (Inr (Inl d))) \<Rightarrow> 4 * size d + 3
    | Inr (Inl (Inr (Inr d))) \<Rightarrow> 4 * size d + 3
    | Inr (Inr (Inl d)) \<Rightarrow> 4 * size d + 3
    | Inr (Inr (Inr (Inl d))) \<Rightarrow> 4 * size d + 3
    | Inr (Inr (Inr (Inr d))) \<Rightarrow> 4 * size d + 3)",
    goal_cases)
  case 1
  show ?case by simp
next
  case (2 v x xa t)
  then show ?case using size_unwrapDecorators_le [of v] by simp
next
  case 11
  then show ?case by (auto dest: size_field_of_shape)
next
  case (12 v x c opt)
  then have "optionalLoop (unwrapDecorators v) False = (c, opt)" by simp
  from size_property_node [OF this] show ?case by simp
next
  case (13 d)
  show ?case using size_extractFirst_le [of d "[''element'', ''items'', ''type'']"] by simp
next
  case (14 d x)
  then show ?case
    using size_coerceArray_le [of x "optget d ''items''"] size_optget_le [of d "''items''"] by simp
next
  case (15 d x)
  have "size (coalesce (optget d ''options'') (optget d ''schemas'')) \<le> size d"
    by (intro size_coalesce size_optget_le)
  with 15 show ?case
    using size_coerceArray_le [of x "coalesce (optget d ''options'') (optget d ''schemas'')"] by simp
next
  case (16 d)
  show ?case using size_optget_le [of d "''left''"] by simp
next
  case (17 d l)
  show ?case using size_optget_le [of d "''right''"] by simp
next
  case (18 d)
  have "size (coalesce (optget d ''valueType'') (optget d ''values'')) \<le> size d"
    by (intro size_coalesce size_optget_le)
  then show ?case by simp
next
  case (19 d)
  have "size (coalesce (optget d ''valueType'') (optget d ''values'')) \<le> size d"
    by (intro size_coalesce size_optget_le)
  then show ?case by simp
next
  case (20 d)
  show ?case using size_optget_le [of d "''valueType''"] by simp
next
  case (21 d)
  have "size (coalesce (optget d ''innerType'') (optget d ''type'')) \<le> size d"
    by (intro size_coalesce size_optget_le)
  then show ?case by simp
qed (auto dest!: size_definition_of_unwrapped)

declare convertSchema.simps [simp del] buildObjectSchema.simps [simp del]
  convertProperty.simps [simp del] buildArraySchema.simps [simp del]
  buildTupleSchema.simps [simp del] buildUnionSchema.simps [simp del]
  buildIntersectionSchema.simps [simp del] buildRecordSchema.simps [simp del]
  buildMapSchema.simps [simp del] buildSetSchema.simps [simp del]
  buildNullableSchema.simps [simp del]

section \<open>The scanner for unrepresentable kinds\<close>

text \<open>A diagnostic \<^verbatim>\<open>{ type, path }\<close> is the pair of its kind and its path.\<close>

type_synonym diagnostic = "string \<times> string"

definition UNREPRESENTABLE_TYPES :: "string list" where
  "UNREPRESENTABLE_TYPES =
     [''set'', ''map'', ''date'', ''promise'', ''function'', ''custom'', ''nan'',
      ''undefined'', ''void'', ''symbol'']"

text \<open>\<^verbatim>\<open>Array.isArray(items) ? items : [items]\<close>.\<close>

definition toArray :: "jsval \<Rightarrow> jsval list" where
  "toArray v = (if isArray v then elements v else [v])"

text \<open>The inner node of a decorator, as the scanner reads it (with \<^verbatim>\<open>||\<close>).\<close>

definition scanUnderlying :: "jsval \<Rightarrow> jsval" where
  "scanUnderlying def =
     or_else (optget def ''innerType'')
       (or_else (optget def ''schema'')
         (or_else (optget def ''base'')
           (or_else (optget def ''type'')
             (or_else (optget def ''wrapped'') (optget def ''underlying'')))))"

lemma size_toArray_le: "x \<in> set (toArray v) \<Longrightarrow> size x \<le> size v"
proof (cases v)
  case (JArr xs)
  assume "x \<in> set (toArray v)"
  then have "x \<in> set xs" by (simp add: JArr toArray_def)
  then have "size x < Suc (size_list size xs)"
    by (induction xs) auto
  then show ?thesis by (simp add: JArr)
qed (auto simp: toArray_def)

lemma size_definition_of_node:
  "readZodType v = Some t \<Longrightarrow> size (readZodDefinition v) < size v"
  by (rule readZodDefinition_truthy_size [OF readZodType_Some_truthy])

lemma size_optget_definition:
  "readZodType v = Some t \<Longrightarrow> size (optget (readZodDefinition v) k) < size v"
  using size_definition_of_node [of v t] size_optget_le [of "readZodDefinition v" k] by simp

lemma size_enumerated_toArray:
  assumes "(i, y) \<in> set (enumerate n (toArray (or_else a b)))"
    and "b = JArr [] \<or> size b \<le> size a"
  shows "size y \<le> size a"
proof -
  from assms(1) have mem: "y \<in> set (toArray (or_else a b))"
    by (auto simp: in_set_enumerate_eq)
  show ?thesis
  proof (cases "truthy a")
    case True
    with mem show ?thesis by (auto simp: or_else_def dest: size_toArray_le)
  next
    case False
    with mem have yb: "y \<in> set (toArray b)" by (simp add: or_else_def)
    then have "b \<noteq> JArr []" by (auto simp: toArray_def)
    with assms(2) size_toArray_le [OF yb] show ?thesis by simp
  qed
qed

text \<open>
  The inner function \<^verbatim>\<open>check\<close> of \<^verbatim>\<open>findUnrepresentableTypes\<close>, with the array
  \<^verbatim>\<open>found\<close> it pushes to passed in and returned.
\<close>

function check :: "jsval \<Rightarrow> string \<Rightarrow> diagnostic list \<Rightarrow> diagnostic list" where
  "check value currentPath found =
     (if \<not> truthy value \<or> typeof value \<noteq> ''object'' then found
      else
        let def = readZodDefinition value in
        (case readZodType value of
           None \<Rightarrow> found
         | Some type \<Rightarrow>
             if type \<noteq> [] \<and> type \<in> set UNREPRESENTABLE_TYPES
             then found @ [(type, currentPath)]
             else if type = ''object'' then
               (let shape = readShape value in
                if truthy shape
                then fold (\<lambda>(key, field). check field (currentPath @ ''.'' @ key))
                       (entries shape) found
                else found)
             else if type = ''array'' then
               (let items = or_else (optget def ''element'')
                              (or_else (optget def ''items'') (optget def ''type''))
                in if truthy items then check items (currentPath @ ''[]'') found else found)
             else if type = ''tuple'' then
               (let items = or_else (optget def ''items'') (JArr []);
                    itemsArray = toArray items;
                    found1 = fold (\<lambda>(i, item). check item (currentPath @ ''['' @ show_nat i @ '']''))
                               (enumerate 0 itemsArray) found
                in if truthy (optget def ''rest'')
                   then check (optget def ''rest'') (currentPath @ ''[...]'') found1
                   else found1)
             else if type = ''union'' \<or> type = ''discriminatedunion'' then
               (let options = or_else (optget def ''options'')
                                (or_else (optget def ''schemas'') (JArr []));
                    optionsArray = toArray options
                in fold (\<lambda>(i, option). check option (currentPath @ ''<union['' @ show_nat i @ '']>''))
                     (enumerate 0 optionsArray) found)
             else if type = ''intersection'' then
               (let found1 = (if truthy (optget def ''left'')
                              then check (optget def ''left'') (currentPath @ ''<left>'') found
                              else found)
                in if truthy (optget def ''right'')
                   then check (optget def ''right'') (currentPath @ ''<right>'') found1
                   else found1)
             else if type = ''record'' then
               (let valueType = or_else (optget def ''valueType'') (optget def ''values'');
                    found1 = (if truthy valueType
                              then check valueType (currentPath @ ''<values>'') found
                              else found);
                    keyType = or_else (optget def ''keyType'') (optget def ''keys'')
                in if truthy keyType
                   then check keyType (currentPath @ ''<keys>'') found1
                   else found1)
             else if type = ''nullable'' \<or> type = ''optional'' then
               (let inner = or_else (optget def ''innerType'') (optget def ''type'')
                in if truthy inner then check inner currentPath found else found)
             else if type \<in> {''transform'', ''effects'', ''refinement'', ''pipeline'', ''pipe'',
                              ''brand'', ''branded'', ''catch'', ''default'', ''prefault'',
                              ''readonly''} then
               (let underlying = scanUnderlying def
                in if truthy underlying then check underlying currentPath found else found)
             else if type = ''lazy'' then found @ [(''lazy'', currentPath)]
             else found))"
  by pat_completeness auto
termination
proof (relation "measure (\<lambda>(value, currentPath, found). size value)", goal_cases)
  case 1
  show ?case by simp
next
  case (2 v currentPath found x x2 xa xb xc y xd)
  then show ?case using size_field_of_shape [of v xc y] by auto
next
  case (3 v currentPath found x x2 xa)
  have "size xa \<le> size x"
    unfolding 3 by (intro size_or_else size_optget_le)
  with size_definition_of_node [OF 3(3)] 3(2) show ?case by simp
next
  case (4 v currentPath found x x2 xa xb xc xd y xe)
  then have "(xd, y) \<in> set (enumerate 0 (toArray (or_else (optget x ''items'') (JArr []))))"
    by simp
  from size_enumerated_toArray [OF this] have "size y \<le> size (optget x ''items'')" by simp
  with size_optget_definition [OF 4(3), of "''items''"] 4(2) show ?case by simp
next
  case (5 v currentPath found x x2 xa xb xaa)
  with size_optget_definition [OF 5(3), of "''rest''"] show ?case by simp
next
  case (6 v currentPath found x x2 xa xb xc xd y xe)
  let ?a = "optget x ''options''" and ?b = "optget x ''schemas''"
  have mem: "(xd, y) \<in> set (enumerate 0 (toArray (or_else ?a (or_else ?b (JArr [])))))"
    using 6 by simp
  have "size y \<le> size x"
  proof (cases "truthy ?a")
    case True
    with mem have "(xd, y) \<in> set (enumerate 0 (toArray (or_else ?a (JArr []))))"
      by (simp add: or_else_def)
    from size_enumerated_toArray [OF this] size_optget_le [of x "''options''"]
    show ?thesis by simp
  next
    case False
    with mem have "(xd, y) \<in> set (enumerate 0 (toArray (or_else ?b (JArr []))))"
      by (simp add: or_else_def)
    from size_enumerated_toArray [OF this] size_optget_le [of x "''schemas''"]
    show ?thesis by simp
  qed
  with size_definition_of_node [OF 6(3)] 6(2) show ?case by simp
next
  case (7 v currentPath found x x2)
  with size_optget_definition [OF 7(3), of "''left''"] show ?case by simp
next
  case (8 v currentPath found x x2 xa)
  with size_optget_definition [OF 8(3), of "''right''"] show ?case by simp
next
  case (9 v currentPath found x x2 xa)
  have "size xa \<le> size x"
    unfolding 9 by (intro size_or_else size_optget_le)
  with size_definition_of_node [OF 9(3)] 9(2) show ?case by simp
next
  case (10 v currentPath found x x2 xa xb xaa)
  have "size xaa \<le> size x"
    unfolding 10 by (intro size_or_else size_optget_le)
  with size_definition_of_node [OF 10(3)] 10(2) show ?case by simp
next
  case (11 v currentPath found x x2 xa)
  have "size xa \<le> size x"
    unfolding 11 by (intro size_or_else size_optget_le)
  with size_definition_of_node [OF 11(3)] 11(2) show ?case by simp
next
  case (12 v currentPath found x x2 xa)
  have "size xa \<le> size x"
    unfolding 12 scanUnderlying_def by (intro size_or_else size_optget_le)
  with size_definition_of_node [OF 12(3)] 12(2) show ?case by simp
qed

declare check.simps [simp del]

definition findUnrepresentableTypes :: "jsval \<Rightarrow> string \<Rightarrow> diagnostic list" where
  "findUnrepresentableTypes input path = check input path []"

section \<open>The native delegate and the entry point\<close>

text \<open>
  A thrown value is an \<^verbatim>\<open>Error\<close> with its message or some other value. What the
  module finds at run time is its environment: \<open>toJSONSchema\<close> is the converter of
  the newer library (\<open>None\<close> when neither \<^verbatim>\<open>require\<close> succeeds or
  \<^verbatim>\<open>z.toJSONSchema\<close> is not a function), which returns a value or throws;
  \<open>inOperatorError\<close> is the message of the \<^verbatim>\<open>TypeError\<close> that \<^verbatim>\<open>'_zod' in input\<close>
  throws for an input that is not an object.
\<close>

datatype thrown = JsError string | NonError jsval

record environment =
  toJSONSchema :: "(jsval \<Rightarrow> thrown + jsval) option"
  inOperatorError :: "jsval \<Rightarrow> string"

definition hasJsonSchemaObjectShape :: "jsval \<Rightarrow> bool" where
  "hasJsonSchemaObjectShape v =
     (typeof v = ''object'' \<and> v \<noteq> JNull \<and> get v ''type'' = JStr ''object'' \<and>
      has_key ''properties'' v \<and> has_key ''additionalProperties'' v)"

text \<open>Strings: the bullet and the arrow of the messages in UTF-8, the line feed, \<^verbatim>\<open>join\<close>.\<close>

definition bullet :: string where
  "bullet = [CHR 0xE2, CHR 0x80, CHR 0xA2]"

definition arrow :: string where
  "arrow = [CHR 0xE2, CHR 0x86, CHR 0x92]"

definition nl :: string where
  "nl = [CHR 0x0A]"

fun join :: "string \<Rightarrow> string list \<Rightarrow> string" where
  "join sep [] = []"
| "join sep [x] = x"
| "join sep (x # y # ys) = x @ sep @ join sep (y # ys)"

text \<open>\<^verbatim>\<open>s.includes(t)\<close>.\<close>

definition str_includes :: "string \<Rightarrow> string \<Rightarrow> bool" where
  "str_includes s t = sublist t s"

text \<open>The remediation bullet of one diagnostic (the \<^verbatim>\<open>switch\<close> inside \<^verbatim>\<open>map\<close>).\<close>

definition fixLine :: "diagnostic \<Rightarrow> string" where
  "fixLine d =
     (case d of (type, path) \<Rightarrow>
        if type = ''set'' then
          ''  '' @ bullet @ '' '' @ path @ '': Replace z.set(T) with z.array(T)'' @ nl @
          ''    Example: z.set(z.string()) '' @ arrow @ '' z.array(z.string())'' @ nl @
          ''    If uniqueness matters, add validation: .refine(arr => new Set(arr).size === arr.length, ''
            @ [CHR 0x27] @ ''Must be unique'' @ [CHR 0x27] @ '')''
        else if type = ''map'' then
          ''  '' @ bullet @ '' '' @ path @ '': Replace z.map() with z.record()'' @ nl @
          ''    Example: z.map(z.string(), z.number()) '' @ arrow @ '' z.record(z.string(), z.number())''
        else if type = ''date'' then
          ''  '' @ bullet @ '' '' @ path @ '': Replace z.date() with z.string().datetime()'' @ nl @
          ''    Example: z.date() '' @ arrow @ '' z.string().datetime()'' @ nl @
          ''    Or use z.coerce.date() if you need automatic date parsing from strings''
        else if type = ''promise'' then
          ''  '' @ bullet @ '' '' @ path @ '': Remove z.promise() - promises cannot be serialized to JSON''
        else if type = ''function'' then
          ''  '' @ bullet @ '' '' @ path @ '': Remove z.function() - functions cannot be serialized to JSON''
        else if type = ''symbol'' then
          ''  '' @ bullet @ '' '' @ path @ '': Replace z.symbol() with z.string() or z.enum([''
            @ [CHR 0x27] @ ''symbol1'' @ [CHR 0x27] @ '', '' @ [CHR 0x27] @ ''symbol2'' @ [CHR 0x27] @ ''])''
        else if type = ''undefined'' then
          ''  '' @ bullet @ '' '' @ path @ '': Replace z.undefined() with .optional()'' @ nl @
          ''    Example: field: z.undefined() '' @ arrow @ '' field: z.string().optional()''
        else if type = ''void'' then
          ''  '' @ bullet @ '' '' @ path @ '': Replace z.void() with z.null() or remove the field''
        else if type = ''nan'' then
          ''  '' @ bullet @ '' '' @ path @ '': Replace z.nan() with z.number()''
        else if type = ''custom'' then
          ''  '' @ bullet @ '' '' @ path @
          '': Replace z.custom() with a concrete type like z.string(), z.number(), or z.object({...})''
        else if type = ''lazy'' then
          ''  '' @ bullet @ '' '' @ path @
          '': Lazy/recursive types may not be fully representable - consider flattening the structure''
        else
          ''  '' @ bullet @ '' '' @ path @ '': '' @ type @ '' is not representable in JSON Schema'')"

definition errorMessage :: "diagnostic list \<Rightarrow> string" where
  "errorMessage unrepresentableTypes =
     (let fixes = join (nl @ nl) (map fixLine unrepresentableTypes) in
      ''[@openai/agents] Cannot convert Zod 4 schema to JSON Schema.'' @ nl @ nl @
      ''Found '' @ show_nat (length unrepresentableTypes) @ '' unrepresentable type(s):'' @ nl @ nl @
      fixes @ nl @ nl @
      ''All of these types have JSON-compatible alternatives. Please update your schema.'' @ nl @
      ''See: https://github.com/anthropics/openai-agents-js/blob/main/docs/zod-schemas.md'')"

text \<open>
  The body of the \<^verbatim>\<open>try\<close> block of \<^verbatim>\<open>tryZod4NativeCompat\<close>: \<open>Inl\<close> is a thrown
  value, \<open>Inr\<close> the value returned.
\<close>

definition isPrimitive :: "jsval \<Rightarrow> bool" where
  "isPrimitive v = (typeof v \<noteq> ''function'' \<and> (typeof v \<noteq> ''object'' \<or> v = JNull))"

definition tryBody :: "environment \<Rightarrow> jsval \<Rightarrow> thrown + jsval" where
  "tryBody env input =
     (if isPrimitive input then Inl (JsError (inOperatorError env input))
      else if \<not> has_key ''_zod'' input then Inr JUndefined
      else
        let unrepresentableTypes = findUnrepresentableTypes input ''$'' in
        if length unrepresentableTypes > 0
        then Inl (JsError (errorMessage unrepresentableTypes))
        else
          (case toJSONSchema env of
             None \<Rightarrow> Inr JUndefined
           | Some native \<Rightarrow>
               (case native input of
                  Inl error \<Rightarrow> Inl error
                | Inr jsonSchema \<Rightarrow>
                    if \<not> hasJsonSchemaObjectShape jsonSchema then Inr JUndefined
                    else Inr jsonSchema)))"

text \<open>The \<^verbatim>\<open>catch\<close> clause: our descriptive error is rethrown, any other is a fallback.\<close>

definition tryZod4NativeCompat :: "environment \<Rightarrow> jsval \<Rightarrow> thrown + jsval" where
  "tryZod4NativeCompat env input =
     (case tryBody env input of
        Inr result \<Rightarrow> Inr result
      | Inl error \<Rightarrow>
          (case error of
             JsError message \<Rightarrow>
               if str_includes message ''[@openai/agents]'' then Inl error else Inr JUndefined
           | NonError v \<Rightarrow> Inr JUndefined))"

text \<open>Assignment \<^verbatim>\<open>schema.k = v\<close> to an object.\<close>

fun set_field :: "jsval \<Rightarrow> string \<Rightarrow> jsval \<Rightarrow> jsval" where
  "set_field (JObj fs) k v = JObj (set_property fs k v)"
| "set_field w k v = w"

definition zodJsonSchemaCompat :: "environment \<Rightarrow> jsval \<Rightarrow> thrown + jsval" where
  "zodJsonSchemaCompat env input =
     (case tryZod4NativeCompat env input of
        Inl error \<Rightarrow> Inl error
      | Inr nativeResult \<Rightarrow>
          if truthy nativeResult then Inr nativeResult
          else
            let schema = buildObjectSchema input in
            if \<not> truthy schema then Inr JUndefined
            else
              let schema1 = (if \<not> isArray (get schema ''required'')
                             then set_field schema ''required'' (JArr []) else schema);
                  schema2 = (if typeof (get schema1 ''additionalProperties'') = ''undefined''
                             then set_field schema1 ''additionalProperties'' (JBool False)
                             else schema1);
                  schema3 = (if typeof (get schema2 ''$schema'') \<noteq> ''string''
                             then set_field schema2 ''$schema'' (JStr JSON_SCHEMA_DRAFT_07)
                             else schema2)
              in Inr schema3)"

section \<open>Sample schema nodes\<close>

text \<open>
  Nodes as the two representations of the library lay them out: the older one keeps
  the definition under \<^verbatim>\<open>_def\<close> with the kind in \<^verbatim>\<open>typeName\<close>, the newer one under
  \<^verbatim>\<open>_zod.def\<close> with the kind in \<^verbatim>\<open>type\<close>. They are the concrete inputs of the
  instances below.
\<close>

definition zod3 :: "string \<Rightarrow> (string \<times> jsval) list \<Rightarrow> jsval" where
  "zod3 typeName ps = JObj [(''_def'', JObj ((''typeName'', JStr typeName) # ps))]"

definition zod4 :: "string \<Rightarrow> (string \<times> jsval) list \<Rightarrow> jsval" where
  "zod4 kind ps = JObj [(''_zod'', JObj [(''def'', JObj ((''type'', JStr kind) # ps))])]"

definition zod3_object :: "(string \<times> jsval) list \<Rightarrow> jsval" where
  "zod3_object fs = zod3 ''ZodObject'' [(''shape'', JFun (Some (JObj fs)))]"

definition zod4_object :: "(string \<times> jsval) list \<Rightarrow> jsval" where
  "zod4_object fs = zod4 ''object'' [(''shape'', JObj fs)]"

definition sample_env :: environment where
  "sample_env = \<lparr> toJSONSchema = None, inOperatorError = (\<lambda>v. ''Cannot use the in operator'') \<rparr>"

section \<open>The cases of the converter's test suite\<close>

text \<open>
  The schemas of the regression tests of the converter, laid out as the older library
  lays them out (a brand keeps its inner node under \<^verbatim>\<open>type\<close>, a read-only and a
  nullable wrapper under \<^verbatim>\<open>innerType\<close>, an array its element under \<^verbatim>\<open>type\<close>, a
  tuple its items under \<^verbatim>\<open>items\<close> with \<^verbatim>\<open>rest\<close> \<^verbatim>\<open>null\<close>), and one object of the
  newer library with the native converter absent. The model yields the documents the
  tests expect.
\<close>

definition decorated_sample :: jsval where
  "decorated_sample =
     zod3_object
       [(''branded'', zod3 ''ZodBranded'' [(''type'', zod3 ''ZodString'' [])]),
        (''readonly'', zod3 ''ZodReadonly'' [(''innerType'', zod3 ''ZodString'' [])]),
        (''nullable'', zod3 ''ZodNullable'' [(''innerType'', zod3 ''ZodString'' [])])]"

definition compound_sample :: jsval where
  "compound_sample =
     zod3_object
       [(''tuple'', zod3 ''ZodTuple''
           [(''items'', JArr [zod3 ''ZodString'' [], zod3 ''ZodNumber'' []]), (''rest'', JNull)]),
        (''union'', zod3 ''ZodUnion''
           [(''options'', JArr [zod3 ''ZodString'' [], zod3 ''ZodNumber'' []])])]"

definition nested_structures_sample :: jsval where
  "nested_structures_sample =
     zod3_object
       [(''record'', zod3 ''ZodRecord''
           [(''keyType'', zod3 ''ZodString'' []), (''valueType'', zod3 ''ZodNumber'' [])]),
        (''list'', zod3 ''ZodArray'' [(''type'', zod3_object [(''id'', zod3 ''ZodString'' [])])])]"

definition newer_sample :: jsval where
  "newer_sample =
     zod4_object
       [(''title'', zod4 ''string'' []),
        (''score'', zod4 ''optional'' [(''innerType'', zod4 ''number'' [])]),
        (''tags'', zod4 ''array'' [(''element'', zod4 ''string'' [])])]"

lemma decorators_and_nullable:
  "(case zodJsonSchemaCompat sample_env decorated_sample of
      Inr document \<Rightarrow> get document ''properties''
    | Inl error \<Rightarrow> JUndefined) =
   JObj [(''branded'', JObj [(''type'', JStr ''string'')]),
         (''readonly'', JObj [(''type'', JStr ''string'')]),
         (''nullable'', JObj [(''anyOf'', JArr [JObj [(''type'', JStr ''string'')],
                                                JObj [(''type'', JStr ''null'')]])])]"
  by code_simp

lemma tuples_and_unions:
  "(case zodJsonSchemaCompat sample_env compound_sample of
      Inr document \<Rightarrow> get document ''properties''
    | Inl error \<Rightarrow> JUndefined) =
   JObj [(''tuple'', JObj [(''type'', JStr ''array''),
                           (''items'', JArr [JObj [(''type'', JStr ''string'')],
                                             JObj [(''type'', JStr ''number'')]]),
                           (''minItems'', JNum 2), (''maxItems'', JNum 2)]),
         (''union'', JObj [(''anyOf'', JArr [JObj [(''type'', JStr ''string'')],
                                             JObj [(''type'', JStr ''number'')]])])]"
  by code_simp

lemma records_and_arrays:
  "(case zodJsonSchemaCompat sample_env nested_structures_sample of
      Inr document \<Rightarrow> get document ''properties''
    | Inl error \<Rightarrow> JUndefined) =
   JObj [(''record'', JObj [(''type'', JStr ''object''),
                            (''additionalProperties'', JObj [(''type'', JStr ''number'')])]),
         (''list'', JObj [(''type'', JStr ''array''),
                          (''items'', JObj [(''type'', JStr ''object''),
                                            (''properties'', JObj [(''id'', JObj [(''type'', JStr ''string'')])]),
                                            (''required'', JArr [JStr ''id'']),
                                            (''additionalProperties'', JBool False)])])]"
  by code_simp

lemma newer_representation_objects:
  "zodJsonSchemaCompat sample_env newer_sample =
   Inr (JObj [(''type'', JStr ''object''),
              (''properties'', JObj [(''title'', JObj [(''type'', JStr ''string'')]),
                                     (''score'', JObj [(''type'', JStr ''number'')]),
                                     (''tags'', JObj [(''type'', JStr ''array''),
                                                      (''items'', JObj [(''type'', JStr ''string'')])])]),
              (''required'', JArr [JStr ''title'', JStr ''tags'']),
              (''additionalProperties'', JBool False),
              (''$schema'', JStr ''http://json-schema.org/draft-07/schema#'')])"
  by code_simp


section \<open>Objects: all fields or nothing\<close>

lemma objectLoop_fails:
  "(key, field) \<in> set es \<Longrightarrow> \<not> truthy (fst (cp field)) \<Longrightarrow> objectLoop cp es ps rs = JUndefined"
proof (induction es arbitrary: ps rs)
  case Nil
  then show ?case by simp
next
  case (Cons e es)
  obtain k f where e: "e = (k, f)" by (cases e)
  obtain s opt where c: "cp f = (s, opt)" by (cases "cp f")
  show ?case
  proof (cases "truthy s")
    case False
    then show ?thesis by (simp add: e c)
  next
    case True
    with Cons.prems have "(key, field) \<in> set es" by (auto simp: e c)
    from Cons.IH [OF this Cons.prems(2)] show ?thesis
      by (simp add: e c)
  qed
qed

text \<open>The properties and the required keys a completed loop has stored.\<close>

definition storedProperties ::
  "(jsval \<Rightarrow> jsval \<times> bool) \<Rightarrow> (string \<times> jsval) list \<Rightarrow> (string \<times> jsval) list \<Rightarrow> (string \<times> jsval) list"
where
  "storedProperties cp es ps = fold (\<lambda>(key, field) p. set_property p key (fst (cp field))) es ps"

definition requiredKeys :: "(jsval \<Rightarrow> jsval \<times> bool) \<Rightarrow> (string \<times> jsval) list \<Rightarrow> string list" where
  "requiredKeys cp es = map fst (filter (\<lambda>(key, field). \<not> snd (cp field)) es)"

lemma objectLoop_succeeds:
  "\<forall>(key, field) \<in> set es. truthy (fst (cp field)) \<Longrightarrow>
   objectLoop cp es ps rs =
     JObj [(''type'', JStr ''object''), (''properties'', JObj (storedProperties cp es ps)),
           (''required'', JArr (map JStr (rs @ requiredKeys cp es))),
           (''additionalProperties'', JBool False)]"
proof (induction es arbitrary: ps rs)
  case Nil
  show ?case by (simp add: storedProperties_def requiredKeys_def)
next
  case (Cons e es)
  obtain k f where e: "e = (k, f)" by (cases e)
  obtain s opt where c: "cp f = (s, opt)" by (cases "cp f")
  from Cons.prems have t: "truthy s" and rest: "\<forall>(key, field) \<in> set es. truthy (fst (cp field))"
    by (auto simp: e c)
  show ?case
    using t by (simp add: e c Cons.IH [OF rest] storedProperties_def requiredKeys_def)
qed

lemma objectLoop_cases:
  "objectLoop cp es ps rs = JUndefined \<and> (\<exists>(key, field) \<in> set es. \<not> truthy (fst (cp field))) \<or>
   (\<forall>(key, field) \<in> set es. truthy (fst (cp field))) \<and>
   objectLoop cp es ps rs =
     JObj [(''type'', JStr ''object''), (''properties'', JObj (storedProperties cp es ps)),
           (''required'', JArr (map JStr (rs @ requiredKeys cp es))),
           (''additionalProperties'', JBool False)]"
proof (cases "\<forall>(key, field) \<in> set es. truthy (fst (cp field))")
  case True
  then show ?thesis using objectLoop_succeeds [OF True] by simp
next
  case False
  then obtain key field where "(key, field) \<in> set es" "\<not> truthy (fst (cp field))" by auto
  then show ?thesis using objectLoop_fails [of key field es cp ps rs] by auto
qed




lemma convertSchema_object:
  assumes "readZodType (unwrapDecorators v) = Some ''object''" "v \<noteq> JUndefined"
  shows "convertSchema v = buildObjectSchema (unwrapDecorators v)"
  using assms by (subst convertSchema.simps) (simp add: simpleType_def SIMPLE_TYPE_MAPPING_def OBJECT_PROTOTYPE_def)





definition person_sample :: jsval where
  "person_sample =
     zod3_object [(''name'', zod3 ''ZodString'' []),
                  (''age'', zod3 ''ZodOptional'' [(''innerType'', zod3 ''ZodNumber'' [])])]"


section \<open>The document of the manual path\<close>

lemma readShape_not_object: "typeof input \<noteq> ''object'' \<or> input = JNull \<Longrightarrow> readShape input = JUndefined"
  by (simp add: readShape_def)

lemma buildObjectSchema_root:
  "buildObjectSchema v = JUndefined \<or>
   (\<exists>properties required. buildObjectSchema v =
      JObj [(''type'', JStr ''object''), (''properties'', JObj properties),
            (''required'', JArr (map JStr required)), (''additionalProperties'', JBool False)])"
proof (cases "truthy (readShape v)")
  case False
  then show ?thesis by (simp add: buildObjectSchema.simps)
next
  case True
  then have b: "buildObjectSchema v = objectLoop convertProperty (entries (readShape v)) [] []"
    by (simp add: buildObjectSchema.simps)
  from objectLoop_cases [of convertProperty "entries (readShape v)" "[]" "[]"]
  show ?thesis unfolding b by auto
qed

text \<open>The manual branch of the entry point, once the delegate has returned nothing.\<close>

lemma manual_branch:
  assumes "tryZod4NativeCompat env input = Inr nativeResult" "\<not> truthy nativeResult"
  shows "zodJsonSchemaCompat env input =
     (if buildObjectSchema input = JUndefined then Inr JUndefined
      else Inr (set_field (buildObjectSchema input) ''$schema'' (JStr JSON_SCHEMA_DRAFT_07)))"
  using assms buildObjectSchema_root [of input]
  by (auto simp: zodJsonSchemaCompat_def Let_def)

lemma native_result_shape:
  assumes "tryZod4NativeCompat env input = Inr nativeResult" "truthy nativeResult"
  shows "hasJsonSchemaObjectShape nativeResult"
  using assms
  by (auto simp: tryZod4NativeCompat_def tryBody_def Let_def
      split: sum.splits thrown.splits if_splits option.splits)
















text \<open>
  C10. On the manual path an input without a readable shape gives no document: a
  primitive, \<^verbatim>\<open>null\<close> or any value that is not an object has no shape, nor has a
  node whose \<^verbatim>\<open>shape\<close> accessor throws. Whatever the path, a document that the
  entry point returns has \<^verbatim>\<open>type\<close> \<^verbatim>\<open>"object"\<close> at its root.
\<close>

theorem root_is_object_or_absent:
  "(tryZod4NativeCompat env input = Inr nativeResult \<and> \<not> truthy nativeResult \<and>
      \<not> truthy (readShape input) \<longrightarrow> zodJsonSchemaCompat env input = Inr JUndefined) \<and>
   (typeof input \<noteq> ''object'' \<or> input = JNull \<longrightarrow> \<not> truthy (readShape input)) \<and>
   (typeof input = ''object'' \<and> get input ''shape'' = JFun None \<longrightarrow> \<not> truthy (readShape input)) \<and>
   (get input ''shape'' = JUndefined \<and> optget (readZodDefinition input) ''shape'' = JFun None \<longrightarrow>
      \<not> truthy (readShape input)) \<and>
   (zodJsonSchemaCompat env input = Inr document \<and> document \<noteq> JUndefined \<longrightarrow>
      get document ''type'' = JStr ''object'')"
proof (intro conjI impI)
  assume a: "tryZod4NativeCompat env input = Inr nativeResult \<and> \<not> truthy nativeResult \<and>
      \<not> truthy (readShape input)"
  then have "buildObjectSchema input = JUndefined" by (simp add: buildObjectSchema.simps)
  with a manual_branch [of env input nativeResult]
  show "zodJsonSchemaCompat env input = Inr JUndefined" by simp
next
  assume "typeof input \<noteq> ''object'' \<or> input = JNull"
  then show "\<not> truthy (readShape input)" by (simp add: readShape_not_object)
next
  assume "typeof input = ''object'' \<and> get input ''shape'' = JFun None"
  then show "\<not> truthy (readShape input)"
    by (auto simp: readShape_def callShape_def)
next
  assume "get input ''shape'' = JUndefined \<and> optget (readZodDefinition input) ''shape'' = JFun None"
  then show "\<not> truthy (readShape input)"
    by (auto simp: readShape_def callShape_def Let_def)
next
  assume d: "zodJsonSchemaCompat env input = Inr document \<and> document \<noteq> JUndefined"
  then obtain nativeResult where n: "tryZod4NativeCompat env input = Inr nativeResult"
    by (auto simp: zodJsonSchemaCompat_def split: sum.splits)
  show "get document ''type'' = JStr ''object''"
  proof (cases "truthy nativeResult")
    case True
    with n d have "document = nativeResult" by (simp add: zodJsonSchemaCompat_def)
    with native_result_shape [OF n True] show ?thesis
      by (simp add: hasJsonSchemaObjectShape_def)
  next
    case False
    from manual_branch [OF n False] d buildObjectSchema_root [of input]
    show ?thesis by (auto split: if_splits)
  qed
qed

definition person_document :: jsval where
  "person_document =
     JObj [(''type'', JStr ''object''),
           (''properties'', JObj [(''name'', JObj [(''type'', JStr ''string'')]),
                                  (''age'', JObj [(''type'', JStr ''number'')])]),
           (''required'', JArr [JStr ''name'']),
           (''additionalProperties'', JBool False),
           (''$schema'', JStr ''http://json-schema.org/draft-07/schema#'')]"

definition throwing_shape :: jsval where
  "throwing_shape = zod3 ''ZodObject'' [(''shape'', JFun None)]"

theorem root_is_object_or_absent_witness:
  "zodJsonSchemaCompat sample_env (JNum 5) = Inr JUndefined \<and>
   zodJsonSchemaCompat sample_env JNull = Inr JUndefined \<and>
   zodJsonSchemaCompat sample_env (JObj [(''shape'', JFun None)]) = Inr JUndefined \<and>
   optget (readZodDefinition throwing_shape) ''shape'' = JFun None \<and>
   zodJsonSchemaCompat sample_env throwing_shape = Inr JUndefined \<and>
   zodJsonSchemaCompat sample_env person_sample = Inr person_document \<and>
   get person_document ''type'' = JStr ''object''"
proof -
  have n1: "tryZod4NativeCompat sample_env (JNum 5) = Inr JUndefined" by code_simp
  have n2: "tryZod4NativeCompat sample_env JNull = Inr JUndefined" by code_simp
  have n3: "tryZod4NativeCompat sample_env (JObj [(''shape'', JFun None)]) = Inr JUndefined"
    by code_simp
  have n4: "tryZod4NativeCompat sample_env throwing_shape = Inr JUndefined" by code_simp
  have s4: "get throwing_shape ''shape'' = JUndefined" by code_simp
  have a4: "optget (readZodDefinition throwing_shape) ''shape'' = JFun None" by code_simp
  have z: "zodJsonSchemaCompat sample_env person_sample = Inr person_document" by code_simp
  have d: "person_document \<noteq> JUndefined" by (simp add: person_document_def)
  note r1 = root_is_object_or_absent [of sample_env "JNum 5" JUndefined]
  note r2 = root_is_object_or_absent [of sample_env JNull JUndefined]
  note r3 = root_is_object_or_absent [of sample_env "JObj [(''shape'', JFun None)]" JUndefined]
  note r4 = root_is_object_or_absent [of sample_env person_sample _ person_document]
  note r5 = root_is_object_or_absent [of sample_env throwing_shape JUndefined]
  have 1: "zodJsonSchemaCompat sample_env (JNum 5) = Inr JUndefined" using r1 n1 by simp
  have 2: "zodJsonSchemaCompat sample_env JNull = Inr JUndefined" using r2 n2 by simp
  have 3: "zodJsonSchemaCompat sample_env (JObj [(''shape'', JFun None)]) = Inr JUndefined"
    using r3 n3 by simp
  have 4: "get person_document ''type'' = JStr ''object''" using r4 z d by simp
  have 5: "zodJsonSchemaCompat sample_env throwing_shape = Inr JUndefined"
    using r5 n4 s4 a4 by simp
  from 1 2 3 a4 5 z 4 show ?thesis by (intro conjI)
qed

section \<open>Optional wrappers without an inner node\<close>





section \<open>Tuples and unions\<close>

lemma convertSchema_tuple:
  assumes "readZodType (unwrapDecorators v) = Some ''tuple''"
  shows "convertSchema v = (if v = JUndefined then JUndefined else buildTupleSchema (readZodDefinition (unwrapDecorators v)))"
  using assms by (subst convertSchema.simps) (simp add: simpleType_def SIMPLE_TYPE_MAPPING_def OBJECT_PROTOTYPE_def)

text \<open>The positional items of a tuple definition that have a schema, converted, in order.\<close>

definition tupleItems :: "jsval \<Rightarrow> jsval list" where
  "tupleItems def = filter truthy (map convertSchema (coerceArray (optget def ''items'')))"

text \<open>
  C6. The entry of a tuple node that converts has \<^verbatim>\<open>type\<close> \<^verbatim>\<open>"array"\<close>; its
  \<^verbatim>\<open>items\<close> are the schemas of the positional items in their order (a subsequence
  of the converted items); \<^verbatim>\<open>minItems\<close> is the length of that array; \<^verbatim>\<open>maxItems\<close>
  is present exactly when the definition has no \<^verbatim>\<open>rest\<close>, and then equals the same
  length.
\<close>

theorem tuple_entry:
  assumes "readZodType (unwrapDecorators v) = Some ''tuple''"
    and "convertSchema v \<noteq> JUndefined"
    and "def = readZodDefinition (unwrapDecorators v)"
  shows "get (convertSchema v) ''type'' = JStr ''array'' \<and>
     get (convertSchema v) ''items'' = JArr (tupleItems def) \<and>
     subseq (tupleItems def) (map convertSchema (coerceArray (optget def ''items''))) \<and>
     get (convertSchema v) ''minItems'' = JNum (int (length (tupleItems def))) \<and>
     (has_key ''maxItems'' (convertSchema v) \<longleftrightarrow> \<not> truthy (optget def ''rest'')) \<and>
     (\<not> truthy (optget def ''rest'') \<longrightarrow>
        get (convertSchema v) ''maxItems'' = JNum (int (length (tupleItems def))))"
proof -
  from assms(2) have nz: "v \<noteq> JUndefined" by (auto simp: convertSchema.simps)
  have c: "convertSchema v = buildTupleSchema def"
    using convertSchema_tuple [OF assms(1)] nz assms(3) by simp
  with assms(2) have ne: "tupleItems def \<noteq> []"
    by (auto simp: buildTupleSchema.simps tupleItems_def Let_def split: if_splits)
  show ?thesis unfolding c
    using ne by (simp add: buildTupleSchema.simps tupleItems_def [symmetric] Let_def)
      (simp add: tupleItems_def)
qed

definition pair_tuple :: jsval where
  "pair_tuple =
     zod3 ''ZodTuple'' [(''items'', JArr [zod3 ''ZodString'' [], zod3 ''ZodNumber'' []]), (''rest'', JNull)]"

definition variadic_tuple :: jsval where
  "variadic_tuple =
     zod3 ''ZodTuple'' [(''items'', JArr [zod3 ''ZodString'' []]), (''rest'', zod3 ''ZodNumber'' [])]"

theorem tuple_entry_witness:
  "convertSchema pair_tuple =
     JObj [(''type'', JStr ''array''),
           (''items'', JArr [JObj [(''type'', JStr ''string'')], JObj [(''type'', JStr ''number'')]]),
           (''minItems'', JNum 2), (''maxItems'', JNum 2)] \<and>
   get (convertSchema pair_tuple) ''minItems'' =
     JNum (int (length (tupleItems (readZodDefinition (unwrapDecorators pair_tuple))))) \<and>
   has_key ''maxItems'' (convertSchema pair_tuple) \<and>
   get (convertSchema variadic_tuple) ''items'' = JArr [JObj [(''type'', JStr ''string'')]] \<and>
   truthy (optget (readZodDefinition (unwrapDecorators variadic_tuple)) ''rest'') \<and>
   \<not> has_key ''maxItems'' (convertSchema variadic_tuple)"
proof -
  have t1: "readZodType (unwrapDecorators pair_tuple) = Some ''tuple''" by code_simp
  have t2: "readZodType (unwrapDecorators variadic_tuple) = Some ''tuple''" by code_simp
  have c1: "convertSchema pair_tuple =
     JObj [(''type'', JStr ''array''),
           (''items'', JArr [JObj [(''type'', JStr ''string'')], JObj [(''type'', JStr ''number'')]]),
           (''minItems'', JNum 2), (''maxItems'', JNum 2)]"
    by code_simp
  have c2: "convertSchema variadic_tuple \<noteq> JUndefined" by code_simp
  have r1: "\<not> truthy (optget (readZodDefinition (unwrapDecorators pair_tuple)) ''rest'')" by code_simp
  have r2: "truthy (optget (readZodDefinition (unwrapDecorators variadic_tuple)) ''rest'')" by code_simp
  have i2: "tupleItems (readZodDefinition (unwrapDecorators variadic_tuple)) = [JObj [(''type'', JStr ''string'')]]"
    by code_simp
  have n1: "convertSchema pair_tuple \<noteq> JUndefined" unfolding c1 by simp
  from tuple_entry [OF t1 n1 refl] r1
  have a: "get (convertSchema pair_tuple) ''minItems'' =
      JNum (int (length (tupleItems (readZodDefinition (unwrapDecorators pair_tuple)))))"
    and b: "has_key ''maxItems'' (convertSchema pair_tuple)"
    by simp_all
  from tuple_entry [OF t2 c2 refl] r2 i2
  have c: "get (convertSchema variadic_tuple) ''items'' = JArr [JObj [(''type'', JStr ''string'')]]"
    and d: "\<not> has_key ''maxItems'' (convertSchema variadic_tuple)"
    by simp_all
  from c1 a b c r2 d show ?thesis by (intro conjI)
qed

definition tuple_with_unsupported_item :: jsval where
  "tuple_with_unsupported_item =
     zod3 ''ZodTuple'' [(''items'', JArr [zod3 ''ZodString'' [], zod3 ''ZodAny'' []]), (''rest'', JNull)]"

definition union_with_unsupported_option :: jsval where
  "union_with_unsupported_option =
     zod3 ''ZodUnion'' [(''options'', JArr [zod3 ''ZodString'' [], zod3 ''ZodNull'' []])]"

text \<open>
  C5. The tuple and the union builder filter the absent schemas out of their children
  before they test for emptiness: a tuple of a string and a node of an unsupported
  kind converts to a tuple of one string with \<^verbatim>\<open>minItems\<close> and \<^verbatim>\<open>maxItems\<close> 1, and
  a union of a string and a node of an unsupported kind to a union of one option.
\<close>

theorem failing_children_are_dropped:
  "convertSchema (zod3 ''ZodAny'' []) = JUndefined \<and>
   convertSchema tuple_with_unsupported_item =
     JObj [(''type'', JStr ''array''), (''items'', JArr [JObj [(''type'', JStr ''string'')]]),
           (''minItems'', JNum 1), (''maxItems'', JNum 1)] \<and>
   convertSchema (zod3 ''ZodNull'' []) = JUndefined \<and>
   convertSchema union_with_unsupported_option =
     JObj [(''anyOf'', JArr [JObj [(''type'', JStr ''string'')]])]"
  by code_simp

section \<open>What the scanner records\<close>

text \<open>A value the scanner looks into: an object, an array (anything truthy of type object).\<close>

definition isNode :: "jsval \<Rightarrow> bool" where
  "isNode v = (truthy v \<and> typeof v = ''object'')"

text \<open>The kind under which the scanner records a node, if it records it.\<close>

definition flaggedAs :: "jsval \<Rightarrow> string option" where
  "flaggedAs v =
     (if \<not> isNode v then None
      else (case readZodType v of
              None \<Rightarrow> None
            | Some kind \<Rightarrow>
                if kind \<in> set UNREPRESENTABLE_TYPES \<or> kind = ''lazy'' then Some kind else None))"

text \<open>
  The children the scanner descends into, each with its path: the fields of an
  object, the element of an array, the items and the rest of a tuple, the options of
  a union, the sides of an intersection, the values and the keys of a record, the
  inner node of a nullable, an optional or a decorator.
\<close>

definition indexed :: "string \<Rightarrow> string \<Rightarrow> string \<Rightarrow> jsval list \<Rightarrow> (jsval \<times> string) list" where
  "indexed p l r xs = map (\<lambda>(i, x). (x, p @ l @ show_nat i @ r)) (enumerate 0 xs)"

definition single :: "jsval \<Rightarrow> string \<Rightarrow> (jsval \<times> string) list" where
  "single c p = (if truthy c then [(c, p)] else [])"

definition fieldsOf :: "jsval \<Rightarrow> string \<Rightarrow> (jsval \<times> string) list" where
  "fieldsOf shape p =
     (if truthy shape then map (\<lambda>(key, field). (field, p @ ''.'' @ key)) (entries shape) else [])"

definition childrenOfKind :: "string \<Rightarrow> jsval \<Rightarrow> jsval \<Rightarrow> string \<Rightarrow> (jsval \<times> string) list" where
  "childrenOfKind kind def shape p =
     (if kind = ''object'' then fieldsOf shape p
      else if kind = ''array'' then
        single (or_else (optget def ''element'') (or_else (optget def ''items'') (optget def ''type'')))
          (p @ ''[]'')
      else if kind = ''tuple'' then
        indexed p ''['' '']'' (toArray (or_else (optget def ''items'') (JArr []))) @
        single (optget def ''rest'') (p @ ''[...]'')
      else if kind = ''union'' \<or> kind = ''discriminatedunion'' then
        indexed p ''<union['' '']>''
          (toArray (or_else (optget def ''options'') (or_else (optget def ''schemas'') (JArr []))))
      else if kind = ''intersection'' then
        single (optget def ''left'') (p @ ''<left>'') @ single (optget def ''right'') (p @ ''<right>'')
      else if kind = ''record'' then
        single (or_else (optget def ''valueType'') (optget def ''values'')) (p @ ''<values>'') @
        single (or_else (optget def ''keyType'') (optget def ''keys'')) (p @ ''<keys>'')
      else if kind = ''nullable'' \<or> kind = ''optional'' then
        single (or_else (optget def ''innerType'') (optget def ''type'')) p
      else if kind \<in> set DECORATOR_WRAPPERS then single (scanUnderlying def) p
      else [])"

definition scanChildren :: "jsval \<Rightarrow> string \<Rightarrow> (jsval \<times> string) list" where
  "scanChildren v p =
     (if \<not> isNode v then []
      else (case readZodType v of
              None \<Rightarrow> []
            | Some kind \<Rightarrow> childrenOfKind kind (readZodDefinition v) (readShape v) p))"

lemma check_not_node: "\<not> isNode v \<Longrightarrow> check v p found = found"
  by (subst check.simps) (auto simp: isNode_def)

lemma check_no_kind: "readZodType v = None \<Longrightarrow> check v p found = found"
  by (subst check.simps) (auto simp: Let_def)

lemma check_flagged:
  assumes "flaggedAs v = Some kind"
  shows "check v p found = found @ [(kind, p)]"
proof -
  from assms have n: "isNode v" and t: "readZodType v = Some kind"
    and k: "kind \<in> set UNREPRESENTABLE_TYPES \<or> kind = ''lazy''"
    by (auto simp: flaggedAs_def split: if_splits option.splits)
  from k show ?thesis
  proof
    assume "kind \<in> set UNREPRESENTABLE_TYPES"
    then show ?thesis using n t
      by (subst check.simps) (auto simp: isNode_def Let_def UNREPRESENTABLE_TYPES_def)
  next
    assume "kind = ''lazy''"
    then show ?thesis using n t
      by (subst check.simps) (simp add: isNode_def Let_def UNREPRESENTABLE_TYPES_def)
  qed
qed

lemma fold_single:
  "fold (\<lambda>(c, q). f c q) (single c p) found = (if truthy c then f c p found else found)"
  by (simp add: single_def)

lemma fold_indexed:
  "fold (\<lambda>(c, q). f c q) (indexed p l r xs) found =
   fold (\<lambda>(i, x). f x (p @ l @ show_nat i @ r)) (enumerate 0 xs) found"
  by (simp add: indexed_def fold_map comp_def split_def)

lemma fold_fieldsOf:
  "fold (\<lambda>(c, q). f c q) (fieldsOf shape p) found =
   (if truthy shape then fold (\<lambda>(key, field). f field (p @ ''.'' @ key)) (entries shape) found
    else found)"
  by (simp add: fieldsOf_def fold_map comp_def split_def)

lemma flaggedAs_None_kind:
  "flaggedAs v = None \<Longrightarrow> isNode v \<Longrightarrow> readZodType v = Some kind \<Longrightarrow>
   kind \<notin> set UNREPRESENTABLE_TYPES \<and> kind \<noteq> ''lazy''"
  by (auto simp: flaggedAs_def split: if_splits)

definition STRUCTURAL_KINDS :: "string list" where
  "STRUCTURAL_KINDS =
     [''object'', ''array'', ''tuple'', ''union'', ''discriminatedunion'', ''intersection'',
      ''record'', ''nullable'', ''optional''] @ DECORATOR_WRAPPERS"

lemma check_descends_structural:
  assumes "isNode v" "readZodType v = Some kind" "kind \<in> set STRUCTURAL_KINDS"
  shows "check v p found = fold (\<lambda>(c, q). check c q) (scanChildren v p) found"
proof -
  from assms(3) have "kind = ''object'' \<or> kind = ''array'' \<or> kind = ''tuple'' \<or> kind = ''union'' \<or>
      kind = ''discriminatedunion'' \<or> kind = ''intersection'' \<or> kind = ''record'' \<or>
      kind = ''nullable'' \<or> kind = ''optional'' \<or> kind = ''brand'' \<or> kind = ''branded'' \<or>
      kind = ''catch'' \<or> kind = ''default'' \<or> kind = ''effects'' \<or> kind = ''pipeline'' \<or>
      kind = ''pipe'' \<or> kind = ''prefault'' \<or> kind = ''readonly'' \<or> kind = ''refinement'' \<or>
      kind = ''transform''"
    by (simp add: STRUCTURAL_KINDS_def DECORATOR_WRAPPERS_def)
  then show ?thesis
    using assms(1,2)
    by (elim disjE; hypsubst; subst check.simps;
        simp add: scanChildren_def childrenOfKind_def isNode_def Let_def UNREPRESENTABLE_TYPES_def
          DECORATOR_WRAPPERS_def fold_single fold_indexed fold_fieldsOf)
qed

lemma check_descends_other:
  assumes "isNode v" "readZodType v = Some kind" "kind \<notin> set STRUCTURAL_KINDS"
    "kind \<notin> set UNREPRESENTABLE_TYPES" "kind \<noteq> ''lazy''"
  shows "check v p found = found" and "scanChildren v p = []"
proof -
  from assms(3) have ne: "kind \<noteq> ''object''" "kind \<noteq> ''array''" "kind \<noteq> ''tuple''" "kind \<noteq> ''union''"
      "kind \<noteq> ''discriminatedunion''" "kind \<noteq> ''intersection''" "kind \<noteq> ''record''"
      "kind \<noteq> ''nullable''" "kind \<noteq> ''optional''" "kind \<notin> set DECORATOR_WRAPPERS"
    by (simp_all add: STRUCTURAL_KINDS_def)
  have dec: "kind \<notin> {''transform'', ''effects'', ''refinement'', ''pipeline'', ''pipe'',
                              ''brand'', ''branded'', ''catch'', ''default'', ''prefault'',
                              ''readonly''}"
    using ne(10) by (simp add: DECORATOR_WRAPPERS_def)
  show "check v p found = found"
    using assms(1,2,4,5) ne(1-9) dec
    by (subst check.simps) (simp add: isNode_def Let_def del: insert_iff)
  show "scanChildren v p = []"
    using assms(1,2) ne
    by (simp add: scanChildren_def childrenOfKind_def)
qed

lemma check_descends:
  assumes "flaggedAs v = None"
  shows "check v p found = fold (\<lambda>(c, q). check c q) (scanChildren v p) found"
proof (cases "isNode v")
  case False
  then show ?thesis by (simp add: check_not_node scanChildren_def)
next
  case n: True
  show ?thesis
  proof (cases "readZodType v")
    case None
    then show ?thesis using n by (simp add: check_no_kind scanChildren_def)
  next
    case (Some kind)
    from flaggedAs_None_kind [OF assms n Some]
    have k: "kind \<notin> set UNREPRESENTABLE_TYPES" "kind \<noteq> ''lazy''" by simp_all
    show ?thesis
    proof (cases "kind \<in> set STRUCTURAL_KINDS")
      case True
      with n Some show ?thesis by (rule check_descends_structural)
    next
      case False
      from check_descends_other [OF n Some False k] show ?thesis by simp
    qed
  qed
qed

lemma single_member: "(c, q) \<in> set (single x p) \<Longrightarrow> c = x"
  by (auto simp: single_def split: if_splits)

lemma indexed_member: "(c, q) \<in> set (indexed p l r xs) \<Longrightarrow> c \<in> set xs"
  by (auto simp: indexed_def in_set_enumerate_eq)

lemma fieldsOf_member:
  "(c, q) \<in> set (fieldsOf shape p) \<Longrightarrow> truthy shape \<and> (\<exists>key. (key, c) \<in> set (entries shape))"
  by (auto simp: fieldsOf_def split: if_splits)

lemma size_toArray_or_empty:
  assumes "c \<in> set (toArray (or_else a (JArr [])))"
  shows "size c \<le> size a"
proof (cases "truthy a")
  case True
  with assms show ?thesis by (auto simp: or_else_def dest: size_toArray_le)
next
  case False
  with assms show ?thesis by (simp add: or_else_def toArray_def)
qed

lemma size_toArray_or_or_empty:
  assumes "c \<in> set (toArray (or_else a (or_else b (JArr []))))"
  shows "size c \<le> size a \<or> size c \<le> size b"
proof (cases "truthy a")
  case True
  with assms show ?thesis by (auto simp: or_else_def dest: size_toArray_le)
next
  case False
  with assms have "c \<in> set (toArray (or_else b (JArr [])))" by (simp add: or_else_def)
  from size_toArray_or_empty [OF this] show ?thesis by simp
qed

lemma childrenOfKind_origin:
  assumes "(c, q) \<in> set (childrenOfKind kind d shape p)"
  shows "(truthy shape \<and> (\<exists>key. (key, c) \<in> set (entries shape))) \<or>
     c = or_else (optget d ''element'') (or_else (optget d ''items'') (optget d ''type'')) \<or>
     c \<in> set (toArray (or_else (optget d ''items'') (JArr []))) \<or>
     c = optget d ''rest'' \<or>
     c \<in> set (toArray (or_else (optget d ''options'') (or_else (optget d ''schemas'') (JArr [])))) \<or>
     c = optget d ''left'' \<or> c = optget d ''right'' \<or>
     c = or_else (optget d ''valueType'') (optget d ''values'') \<or>
     c = or_else (optget d ''keyType'') (optget d ''keys'') \<or>
     c = or_else (optget d ''innerType'') (optget d ''type'') \<or>
     c = scanUnderlying d"
  using assms unfolding childrenOfKind_def
  by (auto split: if_splits dest!: single_member indexed_member fieldsOf_member)

lemma size_scanChildren:
  assumes "(c, q) \<in> set (scanChildren v p)"
  shows "size c < size v"
proof -
  from assms have n: "isNode v"
    by (cases "isNode v") (simp_all add: scanChildren_def)
  from assms n obtain kind where k: "readZodType v = Some kind"
    by (cases "readZodType v") (simp_all add: scanChildren_def)
  let ?d = "readZodDefinition v"
  from assms n k have m: "(c, q) \<in> set (childrenOfKind kind ?d (readShape v) p)"
    by (simp add: scanChildren_def)
  have d: "size ?d < size v" by (rule size_definition_of_node [OF k])
  have o: "size (optget ?d key) < size v" for key
    using d size_optget_le [of ?d key] by simp
  have oo: "size (or_else (optget ?d k1) (optget ?d k2)) < size v" for k1 k2
    using o [of k1] o [of k2] by (simp add: or_else_def)
  have ooo: "size (or_else (optget ?d k1) (or_else (optget ?d k2) (optget ?d k3))) < size v" for k1 k2 k3
    using o [of k1] oo [of k2 k3] by (simp add: or_else_def)
  have u: "size (scanUnderlying ?d) < size v"
    using o by (simp add: scanUnderlying_def or_else_def)
  have t1: "size x < size v" if "x \<in> set (toArray (or_else (optget ?d key) (JArr [])))" for x key
    using size_toArray_or_empty [OF that] o [of key] by simp
  have t2: "size x < size v"
    if "x \<in> set (toArray (or_else (optget ?d k1) (or_else (optget ?d k2) (JArr []))))" for x k1 k2
    using size_toArray_or_or_empty [OF that] o [of k1] o [of k2] by auto
  have f: "size x < size v" if "truthy (readShape v)" "(key, x) \<in> set (entries (readShape v))" for x key
    using that by (rule size_field_of_shape)
  from childrenOfKind_origin [OF m] show ?thesis
    using o oo ooo u t1 t2 f by (elim disjE conjE exE) simp_all
qed

text \<open>
  The diagnostics of the part of the tree below a node, by the words of the
  specification: a node of an unrepresentable kind, or a lazy node, gives one
  diagnostic with its kind and its path and is not entered; any other node gives the
  diagnostics of its children, from left to right.
\<close>

function diagnosticsBelow :: "jsval \<Rightarrow> string \<Rightarrow> diagnostic list" where
  "diagnosticsBelow v p =
     (case flaggedAs v of
        Some kind \<Rightarrow> [(kind, p)]
      | None \<Rightarrow> concat (map (\<lambda>(c, q). diagnosticsBelow c q) (scanChildren v p)))"
  by pat_completeness auto
termination
proof (relation "measure (\<lambda>(v, p). size v)", goal_cases)
  case 1
  show ?case by simp
next
  case (2 v p x c q)
  then have "(c, q) \<in> set (scanChildren v p)" by simp
  from size_scanChildren [OF this] show ?case by simp
qed

declare diagnosticsBelow.simps [simp del]

lemma fold_check_children:
  assumes "\<And>c q found. (c, q) \<in> set cs \<Longrightarrow> check c q found = found @ D c q"
  shows "fold (\<lambda>(c, q). check c q) cs found = found @ concat (map (\<lambda>(c, q). D c q) cs)"
  using assms
proof (induction cs arbitrary: found)
  case Nil
  show ?case by simp
next
  case (Cons x cs)
  obtain c q where x: "x = (c, q)" by (cases x)
  have hd: "check c q found = found @ D c q" by (rule Cons.prems) (simp add: x)
  have tl: "fold (\<lambda>(c, q). check c q) cs f = f @ concat (map (\<lambda>(c, q). D c q) cs)" for f
    by (rule Cons.IH) (rule Cons.prems, simp)
  show ?case by (simp add: x hd tl)
qed

lemma check_appends: "check v p found = found @ diagnosticsBelow v p"
proof (induction v p arbitrary: found rule: diagnosticsBelow.induct)
  case (1 v p)
  show ?case
  proof (cases "flaggedAs v")
    case (Some kind)
    then show ?thesis by (subst diagnosticsBelow.simps) (simp add: check_flagged)
  next
    case None
    have "fold (\<lambda>(c, q). check c q) (scanChildren v p) found =
        found @ concat (map (\<lambda>(c, q). diagnosticsBelow c q) (scanChildren v p))"
      by (rule fold_check_children) (rule "1.IH" [OF None], simp_all)
    then show ?thesis
      by (subst diagnosticsBelow.simps) (simp add: None check_descends [OF None])
  qed
qed

text \<open>The nodes the scanner's walk reaches from a node, each with its path.\<close>

inductive scanReaches :: "jsval \<Rightarrow> string \<Rightarrow> jsval \<Rightarrow> string \<Rightarrow> bool" where
  here: "scanReaches v p v p"
| below: "flaggedAs v = None \<Longrightarrow> (c, q) \<in> set (scanChildren v p) \<Longrightarrow> scanReaches c q w r
    \<Longrightarrow> scanReaches v p w r"

lemma diagnostics_reached:
  "(kind, r) \<in> set (diagnosticsBelow v p) \<Longrightarrow> \<exists>w. scanReaches v p w r \<and> flaggedAs w = Some kind"
proof (induction v p rule: diagnosticsBelow.induct)
  case (1 v p)
  show ?case
  proof (cases "flaggedAs v")
    case (Some k)
    with "1.prems" have "kind = k" "r = p" by (simp_all add: diagnosticsBelow.simps)
    with Some show ?thesis by (auto intro: scanReaches.here)
  next
    case None
    with "1.prems" obtain c q where m: "(c, q) \<in> set (scanChildren v p)"
      and d: "(kind, r) \<in> set (diagnosticsBelow c q)"
      by (subst (asm) diagnosticsBelow.simps) auto
    from "1.IH" [OF None m refl d] obtain w where "scanReaches c q w r" "flaggedAs w = Some kind"
      by blast
    with None m show ?thesis by (auto intro: scanReaches.below)
  qed
qed

lemma reached_diagnostics:
  "scanReaches v p w r \<Longrightarrow> flaggedAs w = Some kind \<Longrightarrow> (kind, r) \<in> set (diagnosticsBelow v p)"
proof (induction rule: scanReaches.induct)
  case (here v p)
  then show ?case by (simp add: diagnosticsBelow.simps)
next
  case (below v c q p w r)
  then show ?case by (subst diagnosticsBelow.simps) force
qed

lemma diagnostic_kinds:
  assumes "(kind, r) \<in> set (findUnrepresentableTypes input path)"
  shows "kind \<in> set UNREPRESENTABLE_TYPES \<or> kind = ''lazy''"
proof -
  from assms have "(kind, r) \<in> set (diagnosticsBelow input path)"
    using check_appends [of input path "[]"] by (simp add: findUnrepresentableTypes_def)
  from diagnostics_reached [OF this] obtain w where "flaggedAs w = Some kind" by blast
  then show ?thesis by (auto simp: flaggedAs_def split: if_splits option.splits)
qed

text \<open>
  On a tree the scanner returns, in the order of a depth-first walk, one diagnostic for
  each node the walk reaches whose kind is in the unrepresentable set or is lazy, with
  that kind and the path of the node from the root. Such a node is not entered: its
  diagnostic is all it contributes, whatever its definition holds.
\<close>

lemma diagnostics_of_tree:
  "findUnrepresentableTypes input path = diagnosticsBelow input path \<and>
   set (findUnrepresentableTypes input path) =
     {(kind, r). \<exists>w. scanReaches input path w r \<and> flaggedAs w = Some kind} \<and>
   (flaggedAs input = Some kind \<longrightarrow> findUnrepresentableTypes input path = [(kind, path)]) \<and>
   (isNode input \<and> readZodType input = Some ''lazy'' \<longrightarrow>
      findUnrepresentableTypes input path = [(''lazy'', path)])"
proof -
  have e: "findUnrepresentableTypes input path = diagnosticsBelow input path"
    using check_appends [of input path "[]"] by (simp add: findUnrepresentableTypes_def)
  have s: "set (diagnosticsBelow input path) =
     {(kind, r). \<exists>w. scanReaches input path w r \<and> flaggedAs w = Some kind}"
    using diagnostics_reached reached_diagnostics by fast
  have f: "diagnosticsBelow input path = [(kind, path)]" if "flaggedAs input = Some kind"
    using that by (simp add: diagnosticsBelow.simps)
  have l: "flaggedAs input = Some ''lazy''" if "isNode input \<and> readZodType input = Some ''lazy''"
    using that by (simp add: flaggedAs_def)
  have "diagnosticsBelow input path = [(''lazy'', path)]"
    if "isNode input \<and> readZodType input = Some ''lazy''"
    using l [OF that] by (simp add: diagnosticsBelow.simps)
  with e s f show ?thesis by simp
qed

definition set_of_dates :: jsval where
  "set_of_dates = zod4 ''set'' [(''valueType'', zod4 ''date'' [])]"

definition lazy_node :: jsval where
  "lazy_node = zod4 ''lazy'' [(''getter'', JFun None)]"

definition nested_sample :: jsval where
  "nested_sample =
     zod4_object
       [(''tags'', set_of_dates),
        (''user'', zod4_object
           [(''createdAt'', zod4 ''date'' []),
            (''pair'', zod4 ''tuple'' [(''items'', JArr [zod4 ''string'' [], lazy_node]),
                                       (''rest'', zod4 ''map'' [])])])]"

section \<open>The fatal error of the delegate\<close>

text \<open>The advice of the bullet of each kind: what follows the path and the colon on its first line.\<close>

definition remediation :: "string \<Rightarrow> string" where
  "remediation kind =
     (if kind = ''set'' then ''Replace z.set(T) with z.array(T)''
      else if kind = ''map'' then ''Replace z.map() with z.record()''
      else if kind = ''date'' then ''Replace z.date() with z.string().datetime()''
      else if kind = ''promise'' then ''Remove z.promise() - promises cannot be serialized to JSON''
      else if kind = ''function'' then ''Remove z.function() - functions cannot be serialized to JSON''
      else if kind = ''symbol'' then ''Replace z.symbol() with z.string() or z.enum([''
      else if kind = ''undefined'' then ''Replace z.undefined() with .optional()''
      else if kind = ''void'' then ''Replace z.void() with z.null() or remove the field''
      else if kind = ''nan'' then ''Replace z.nan() with z.number()''
      else if kind = ''custom'' then ''Replace z.custom() with a concrete type like z.string(), z.number(), or z.object({...})''
      else if kind = ''lazy'' then ''Lazy/recursive types may not be fully representable - consider flattening the structure''
      else kind @ '' is not representable in JSON Schema'')"

definition bulletOf :: "diagnostic \<Rightarrow> string" where
  "bulletOf d = ''  '' @ bullet @ '' '' @ snd d @ '': '' @ remediation (fst d)"

lemma bullet_prefix_fixLine: "prefix (bulletOf d) (fixLine d)"
proof -
  obtain kind path where d: "d = (kind, path)" by (cases d)
  show ?thesis
    unfolding d bulletOf_def fixLine_def remediation_def
    by (simp add: prefix_def)
qed

lemma sublist_join: "x \<in> set xs \<Longrightarrow> sublist x (join sep xs)"
proof (induction sep xs rule: join.induct)
  case (1 sep)
  then show ?case by simp
next
  case (2 sep y)
  then show ?case by simp
next
  case (3 sep y z zs)
  show ?case
  proof (cases "x = y")
    case True
    then show ?thesis by simp
  next
    case False
    with 3 have "sublist x (join sep (z # zs))" by simp
    then show ?thesis by (auto simp: sublist_def) (metis append.assoc)
  qed
qed

lemma bullet_in_message:
  assumes "d \<in> set ds"
  shows "str_includes (errorMessage ds) (bulletOf d)"
proof -
  have "sublist (bulletOf d) (fixLine d)"
    by (rule prefix_imp_sublist [OF bullet_prefix_fixLine])
  moreover have "sublist (fixLine d) (join (nl @ nl) (map fixLine ds))"
    using assms by (intro sublist_join) simp
  ultimately have "sublist (bulletOf d) (join (nl @ nl) (map fixLine ds))"
    by (rule sublist_order.order.trans)
  then obtain a b where "join (nl @ nl) (map fixLine ds) = a @ bulletOf d @ b"
    by (auto simp: sublist_def)
  then show ?thesis
    unfolding str_includes_def errorMessage_def Let_def sublist_def
    by (metis append.assoc)
qed

lemma header_in_message:
  "str_includes (errorMessage ds) ''[@openai/agents]'' \<and>
   str_includes (errorMessage ds) ''Cannot convert Zod 4 schema to JSON Schema''"
proof -
  have "\<exists>r. errorMessage ds = ''[@openai/agents]'' @ r"
    and "\<exists>r. errorMessage ds = ''[@openai/agents] '' @ ''Cannot convert Zod 4 schema to JSON Schema'' @ r"
    by (simp_all add: errorMessage_def Let_def)
  then show ?thesis
    unfolding str_includes_def sublist_def by (metis append_Nil)+
qed

lemma has_key_not_primitive: "has_key k v \<Longrightarrow> \<not> isPrimitive v"
  by (cases v) (auto simp: isPrimitive_def)

definition lazy_sample :: jsval where
  "lazy_sample = zod4_object [(''node'', zod4 ''lazy'' [(''getter'', JFun None)])]"

definition promise_sample :: jsval where
  "promise_sample = zod4_object [(''later'', zod4 ''promise'' [(''innerType'', zod4 ''string'' [])])]"

definition set_sample :: jsval where
  "set_sample = zod4_object [(''tags'', zod4 ''set'' [(''valueType'', zod4 ''string'' [])])]"

text \<open>
  C2 (as amended). For an input of the newer representation in which the scanner finds
  a diagnostic, the delegate and the entry point throw an error whose message is
  composed from the diagnostics: it contains the header
  \<^verbatim>\<open>Cannot convert Zod 4 schema to JSON Schema\<close> and, for each diagnostic, a bullet
  with its path followed by the advice of its kind. The advice is a replacement for
  the kinds set, map, date, symbol, undefined, void, nan and custom, an instruction
  to remove the schema for promise and function, and the advice to flatten the
  structure for lazy.
\<close>

theorem unrepresentable_is_fatal:
  assumes "has_key ''_zod'' input" and "ds = findUnrepresentableTypes input ''$''" and "ds \<noteq> []"
  shows "tryZod4NativeCompat env input = Inl (JsError (errorMessage ds)) \<and>
     zodJsonSchemaCompat env input = Inl (JsError (errorMessage ds)) \<and>
     str_includes (errorMessage ds) ''Cannot convert Zod 4 schema to JSON Schema'' \<and>
     (\<forall>(kind, path) \<in> set ds.
        str_includes (errorMessage ds) (''  '' @ bullet @ '' '' @ path @ '': '' @ remediation kind) \<and>
        (kind \<in> set UNREPRESENTABLE_TYPES \<or> kind = ''lazy'')) \<and>
     (\<forall>kind \<in> set [''set'', ''map'', ''date'', ''symbol'', ''undefined'', ''void'', ''nan'', ''custom''].
        prefix ''Replace z.'' (remediation kind)) \<and>
     (\<forall>kind \<in> set [''promise'', ''function'']. prefix ''Remove z.'' (remediation kind)) \<and>
     remediation ''lazy'' =
       ''Lazy/recursive types may not be fully representable - consider flattening the structure''"
proof -
  have body: "tryBody env input = Inl (JsError (errorMessage ds))"
    using assms has_key_not_primitive [OF assms(1)] by (simp add: tryBody_def Let_def)
  have t: "tryZod4NativeCompat env input = Inl (JsError (errorMessage ds))"
    using header_in_message [of ds] by (simp add: tryZod4NativeCompat_def body)
  then have z: "zodJsonSchemaCompat env input = Inl (JsError (errorMessage ds))"
    by (simp add: zodJsonSchemaCompat_def)
  have b: "str_includes (errorMessage ds) (''  '' @ bullet @ '' '' @ path @ '': '' @ remediation kind)"
    if "(kind, path) \<in> set ds" for kind path
    using bullet_in_message [OF that] by (simp add: bulletOf_def)
  have k: "kind \<in> set UNREPRESENTABLE_TYPES \<or> kind = ''lazy''"
    if "(kind, path) \<in> set ds" for kind path
    using that diagnostic_kinds [of kind path input "''$''"] by (simp add: assms(2))
  have r: "\<forall>kind \<in> set [''set'', ''map'', ''date'', ''symbol'', ''undefined'', ''void'', ''nan'', ''custom''].
        prefix ''Replace z.'' (remediation kind)"
    and v: "\<forall>kind \<in> set [''promise'', ''function'']. prefix ''Remove z.'' (remediation kind)"
    and l: "remediation ''lazy'' =
       ''Lazy/recursive types may not be fully representable - consider flattening the structure''"
    by (simp_all add: remediation_def)
  from b k have "\<forall>(kind, path) \<in> set ds.
        str_includes (errorMessage ds) (''  '' @ bullet @ '' '' @ path @ '': '' @ remediation kind) \<and>
        (kind \<in> set UNREPRESENTABLE_TYPES \<or> kind = ''lazy'')"
    by blast
  with t z header_in_message [of ds] r v l show ?thesis by (intro conjI) simp_all
qed

theorem unrepresentable_is_fatal_witness:
  "has_key ''_zod'' set_sample \<and>
   findUnrepresentableTypes set_sample ''$'' = [(''set'', ''$.tags'')] \<and>
   zodJsonSchemaCompat sample_env set_sample = Inl (JsError (errorMessage [(''set'', ''$.tags'')])) \<and>
   str_includes (errorMessage [(''set'', ''$.tags'')]) ''Cannot convert Zod 4 schema to JSON Schema'' \<and>
   str_includes (errorMessage [(''set'', ''$.tags'')])
     (''  '' @ bullet @ '' $.tags: Replace z.set(T) with z.array(T)'')"
proof -
  have k: "has_key ''_zod'' set_sample" by code_simp
  have f: "[(''set'', ''$.tags'')] = findUnrepresentableTypes set_sample ''$''" by code_simp
  have n: "[(''set'', ''$.tags'')] \<noteq> []" by simp
  have r: "remediation ''set'' = ''Replace z.set(T) with z.array(T)''" by (simp add: remediation_def)
  note u = unrepresentable_is_fatal [OF k f n, of sample_env]
  have 1: "zodJsonSchemaCompat sample_env set_sample = Inl (JsError (errorMessage [(''set'', ''$.tags'')]))"
    using u by (elim conjE)
  have 2: "str_includes (errorMessage [(''set'', ''$.tags'')]) ''Cannot convert Zod 4 schema to JSON Schema''"
    using u by (elim conjE)
  have "\<forall>(kind, path) \<in> set [(''set'', ''$.tags'')].
        str_includes (errorMessage [(''set'', ''$.tags'')])
          (''  '' @ bullet @ '' '' @ path @ '': '' @ remediation kind) \<and>
        (kind \<in> set UNREPRESENTABLE_TYPES \<or> kind = ''lazy'')"
    using u by (elim conjE)
  then have 3: "str_includes (errorMessage [(''set'', ''$.tags'')])
     (''  '' @ bullet @ '' $.tags: Replace z.set(T) with z.array(T)'')"
    by (simp add: r)
  from k f [symmetric] 1 2 3 show ?thesis by (intro conjI)
qed

text \<open>
  The claim as stated asks for a replacement example in every bullet. The message for
  a lazy node, and the one for a promise, contain no replacement and no example.
\<close>

theorem bullets_without_replacement:
  "findUnrepresentableTypes lazy_sample ''$'' = [(''lazy'', ''$.node'')] \<and>
   tryZod4NativeCompat sample_env lazy_sample = Inl (JsError (errorMessage [(''lazy'', ''$.node'')])) \<and>
   \<not> str_includes (errorMessage [(''lazy'', ''$.node'')]) ''Replace'' \<and>
   \<not> str_includes (errorMessage [(''lazy'', ''$.node'')]) ''Example'' \<and>
   findUnrepresentableTypes promise_sample ''$'' = [(''promise'', ''$.later'')] \<and>
   tryZod4NativeCompat sample_env promise_sample = Inl (JsError (errorMessage [(''promise'', ''$.later'')])) \<and>
   \<not> str_includes (errorMessage [(''promise'', ''$.later'')]) ''Replace'' \<and>
   \<not> str_includes (errorMessage [(''promise'', ''$.later'')]) ''Example''"
  by code_simp

section \<open>Which errors leave the entry point\<close>


text \<open>The converter of the newer library returns a result with the shape of an object schema.\<close>

definition nativeResult :: "environment \<Rightarrow> jsval \<Rightarrow> jsval option" where
  "nativeResult env input =
     (if isPrimitive input \<or> \<not> has_key ''_zod'' input \<or> findUnrepresentableTypes input ''$'' \<noteq> []
      then None
      else (case toJSONSchema env of
              None \<Rightarrow> None
            | Some native \<Rightarrow>
                (case native input of
                   Inr jsonSchema \<Rightarrow>
                     if hasJsonSchemaObjectShape jsonSchema then Some jsonSchema else None
                 | Inl error \<Rightarrow> None)))"











section \<open>Reference identity: the unwrapper on a store\<close>

text \<open>
  Whether \<^verbatim>\<open>next === current\<close> holds, and whether wrappers form a cycle, depends on
  the identity of objects. Here a value is a primitive or a reference into a store of
  objects, two references are identical when they are the same address, and the
  introspector and the loop of \<^verbatim>\<open>unwrapDecorators\<close> read through the store. The loop
  may run forever, so the function is partial: \<open>None\<close> is the loop that never
  returns.
\<close>

type_synonym addr = nat

datatype refval = RUndefined | RNull | RBool bool | RNum int | RStr string | RRef addr

datatype stored =
    SObject "(string \<times> refval) list"
  | SArray "refval list"
  | SFunction "refval option"

type_synonym store = "addr \<Rightarrow> stored option"

fun ref_truthy :: "refval \<Rightarrow> bool" where
  "ref_truthy RUndefined = False"
| "ref_truthy RNull = False"
| "ref_truthy (RBool b) = b"
| "ref_truthy (RNum n) = (n \<noteq> 0)"
| "ref_truthy (RStr s) = (s \<noteq> [])"
| "ref_truthy (RRef a) = True"

fun ref_typeof :: "store \<Rightarrow> refval \<Rightarrow> string" where
  "ref_typeof st RUndefined = ''undefined''"
| "ref_typeof st RNull = ''object''"
| "ref_typeof st (RBool b) = ''boolean''"
| "ref_typeof st (RNum n) = ''number''"
| "ref_typeof st (RStr s) = ''string''"
| "ref_typeof st (RRef a) = (case st a of Some (SFunction f) \<Rightarrow> ''function'' | _ \<Rightarrow> ''object'')"

fun ref_get :: "store \<Rightarrow> refval \<Rightarrow> string \<Rightarrow> refval" where
  "ref_get st (RRef a) k =
     (case st a of
        Some (SObject fs) \<Rightarrow> (case map_of fs k of None \<Rightarrow> RUndefined | Some v \<Rightarrow> v)
      | _ \<Rightarrow> RUndefined)"
| "ref_get st _ k = RUndefined"

definition ref_nullish :: "refval \<Rightarrow> bool" where
  "ref_nullish v = (v = RUndefined \<or> v = RNull)"

definition ref_optget :: "store \<Rightarrow> refval \<Rightarrow> string \<Rightarrow> refval" where
  "ref_optget st v k = (if ref_nullish v then RUndefined else ref_get st v k)"

definition ref_or_else :: "refval \<Rightarrow> refval \<Rightarrow> refval" where
  "ref_or_else a b = (if ref_truthy a then a else b)"

definition ref_coalesce :: "refval \<Rightarrow> refval \<Rightarrow> refval" where
  "ref_coalesce a b = (if ref_nullish a then b else a)"

text \<open>Modelled from the spec: the introspector of section 4.1, as above, reading through the store.\<close>

definition ref_readZodDefinition :: "store \<Rightarrow> refval \<Rightarrow> refval" where
  "ref_readZodDefinition st input =
     (if ref_typeof st input \<noteq> ''object'' \<or> input = RNull then RUndefined
      else ref_or_else (ref_optget st (ref_get st input ''_zod'') ''def'')
             (ref_or_else (ref_get st input ''_def'') (ref_get st input ''def'')))"

definition ref_readZodType :: "store \<Rightarrow> refval \<Rightarrow> string option" where
  "ref_readZodType st input =
     (let def = ref_readZodDefinition st input in
      if \<not> ref_truthy def then None
      else
        let rawType =
          (if ref_typeof st (ref_get st def ''typeName'') = ''string'' \<and>
              ref_truthy (ref_get st def ''typeName'')
           then ref_get st def ''typeName''
           else if ref_typeof st (ref_get st def ''type'') = ''string'' then ref_get st def ''type''
           else RBool False)
        in (case rawType of
              RStr raw \<Rightarrow>
                (let lower = toLowerCase raw in
                 Some (if prefix ''zod'' lower then drop 3 lower else lower))
            | _ \<Rightarrow> None))"

definition ref_typeOrEmpty :: "store \<Rightarrow> refval \<Rightarrow> string" where
  "ref_typeOrEmpty st v = (case ref_readZodType st v of None \<Rightarrow> [] | Some t \<Rightarrow> t)"

definition ref_decoratorNext :: "store \<Rightarrow> refval \<Rightarrow> refval" where
  "ref_decoratorNext st current =
     (let def = ref_readZodDefinition st current in
      ref_coalesce (ref_optget st def ''innerType'')
        (ref_coalesce (ref_optget st def ''schema'')
          (ref_coalesce (ref_optget st def ''base'')
            (ref_coalesce (ref_optget st def ''type'')
              (ref_coalesce (ref_optget st def ''wrapped'') (ref_optget st def ''underlying''))))))"

partial_function (option) unwrapDecorators_ref :: "store \<Rightarrow> refval \<Rightarrow> refval option" where
  "unwrapDecorators_ref st current =
     (if ref_typeOrEmpty st current \<in> set DECORATOR_WRAPPERS then
        (let nxt = ref_decoratorNext st current in
         if \<not> ref_truthy nxt \<or> nxt = current then Some current
         else unwrapDecorators_ref st nxt)
      else Some current)"

text \<open>The same loop with a bound on the number of times its condition is evaluated.\<close>

fun unwrapWithin :: "nat \<Rightarrow> store \<Rightarrow> refval \<Rightarrow> refval option" where
  "unwrapWithin 0 st current = None"
| "unwrapWithin (Suc n) st current =
     (if ref_typeOrEmpty st current \<in> set DECORATOR_WRAPPERS then
        (let nxt = ref_decoratorNext st current in
         if \<not> ref_truthy nxt \<or> nxt = current then Some current
         else unwrapWithin n st nxt)
      else Some current)"

text \<open>
  A chain of \<open>n\<close> decorators from \<open>v\<close> to its innermost node \<open>w\<close>: each of the \<open>n\<close>
  nodes is a decorator with a truthy inner node other than itself, and \<open>w\<close> is not
  (it is no decorator, has no inner node, or is its own inner node).
\<close>

definition unwraps :: "store \<Rightarrow> refval \<Rightarrow> bool" where
  "unwraps st v =
     (ref_typeOrEmpty st v \<in> set DECORATOR_WRAPPERS \<and> ref_truthy (ref_decoratorNext st v) \<and>
      ref_decoratorNext st v \<noteq> v)"

inductive decoratorChain :: "store \<Rightarrow> refval \<Rightarrow> nat \<Rightarrow> refval \<Rightarrow> bool" where
  innermost: "\<not> unwraps st v \<Longrightarrow> decoratorChain st v 0 v"
| wrapped: "unwraps st v \<Longrightarrow> decoratorChain st (ref_decoratorNext st v) n w
    \<Longrightarrow> decoratorChain st v (Suc n) w"

lemma unwrap_step:
  "unwrapDecorators_ref st v = (if unwraps st v then unwrapDecorators_ref st (ref_decoratorNext st v) else Some v)"
  by (subst unwrapDecorators_ref.simps) (auto simp: unwraps_def Let_def)

lemma within_step:
  "unwrapWithin (Suc n) st v = (if unwraps st v then unwrapWithin n st (ref_decoratorNext st v) else Some v)"
  by (auto simp: unwraps_def Let_def)

declare unwrapWithin.simps(2) [simp del]

lemma chain_unwraps:
  "decoratorChain st v n w \<Longrightarrow> unwrapDecorators_ref st v = Some w \<and> unwrapWithin (Suc n) st v = Some w"
proof (induction rule: decoratorChain.induct)
  case (innermost st v)
  then have "unwrapDecorators_ref st v = Some v" by (subst unwrap_step) simp
  moreover from innermost have "unwrapWithin (Suc 0) st v = Some v" by (subst within_step) simp
  ultimately show ?case by simp
next
  case (wrapped st v n w)
  then have "unwrapDecorators_ref st v = Some w" by (subst unwrap_step) simp
  moreover from wrapped have "unwrapWithin (Suc (Suc n)) st v = Some w" by (subst within_step) simp
  ultimately show ?case by simp
qed

lemma unwraps_chain:
  assumes "unwrapDecorators_ref st v = Some w"
  shows "\<exists>n. decoratorChain st v n w"
proof -
  have step: "\<exists>n. decoratorChain st v n w"
    if ih: "\<And>st v w. unwrap st v = Some w \<Longrightarrow> \<exists>n. decoratorChain st v n w"
      and body: "(if ref_typeOrEmpty st v \<in> set DECORATOR_WRAPPERS then
          (let nxt = ref_decoratorNext st v in
           if \<not> ref_truthy nxt \<or> nxt = v then Some v else unwrap st nxt)
        else Some v) = Some w"
    for unwrap :: "store \<Rightarrow> refval \<Rightarrow> refval option" and st v w
  proof (cases "unwraps st v")
    case False
    with body have "w = v" by (auto simp: unwraps_def Let_def split: if_splits)
    with False show ?thesis by (auto intro: decoratorChain.innermost)
  next
    case True
    with body have "unwrap st (ref_decoratorNext st v) = Some w"
      by (auto simp: unwraps_def Let_def split: if_splits)
    from ih [OF this] obtain n where "decoratorChain st (ref_decoratorNext st v) n w" by blast
    with True show ?thesis by (auto intro: decoratorChain.wrapped)
  qed
  show ?thesis
    by (rule unwrapDecorators_ref.raw_induct
        [where P = "\<lambda>st v w. \<exists>n. decoratorChain st v n w", OF step assms])
qed

lemma within_unwraps: "unwrapWithin n st v = Some w \<Longrightarrow> unwrapDecorators_ref st v = Some w"
proof (induction n arbitrary: v)
  case 0
  then show ?case by simp
next
  case (Suc n)
  show ?case
  proof (cases "unwraps st v")
    case True
    with Suc.prems have "unwrapWithin n st (ref_decoratorNext st v) = Some w"
      by (simp only: within_step if_True)
    from Suc.IH [OF this] True show ?thesis by (subst unwrap_step) simp
  next
    case False
    with Suc.prems have "w = v" by (simp only: within_step if_False option.inject)
    with False show ?thesis by (subst unwrap_step) simp
  qed
qed

text \<open>Two read-only wrappers, each the inner node of the other.\<close>

definition cyclic_store :: store where
  "cyclic_store =
     [10 \<mapsto> SObject [(''_def'', RRef 12)],
      11 \<mapsto> SObject [(''_def'', RRef 13)],
      12 \<mapsto> SObject [(''typeName'', RStr ''ZodReadonly''), (''innerType'', RRef 11)],
      13 \<mapsto> SObject [(''typeName'', RStr ''ZodReadonly''), (''innerType'', RRef 10)]]"

text \<open>
  A brand around a read-only wrapper around a string, and a read-only wrapper that is
  its own inner node.
\<close>

definition chain_store :: store where
  "chain_store =
     [10 \<mapsto> SObject [(''_def'', RRef 13)],
      11 \<mapsto> SObject [(''_def'', RRef 14)],
      12 \<mapsto> SObject [(''_def'', RRef 15)],
      13 \<mapsto> SObject [(''typeName'', RStr ''ZodBranded''), (''type'', RRef 11)],
      14 \<mapsto> SObject [(''typeName'', RStr ''ZodReadonly''), (''innerType'', RRef 12)],
      15 \<mapsto> SObject [(''typeName'', RStr ''ZodString'')],
      16 \<mapsto> SObject [(''_def'', RRef 17)],
      17 \<mapsto> SObject [(''typeName'', RStr ''ZodReadonly''), (''innerType'', RRef 16)]]"

lemma cyclic_steps:
  "unwraps cyclic_store (RRef 10)" "ref_decoratorNext cyclic_store (RRef 10) = RRef 11"
  "unwraps cyclic_store (RRef 11)" "ref_decoratorNext cyclic_store (RRef 11) = RRef 10"
  by code_simp+

lemma cyclic_within: "unwrapWithin n cyclic_store (RRef 10) = None \<and> unwrapWithin n cyclic_store (RRef 11) = None"
proof (induction n)
  case 0
  show ?case by simp
next
  case (Suc n)
  then show ?case by (simp only: within_step cyclic_steps if_True simp_thms)
qed

text \<open>
  The claim as stated includes cycles of any length. On the cycle of two wrappers the
  guard never fires, the loop makes no progress, and no bound on its steps suffices.
\<close>

theorem unwrapper_loops_on_cycle:
  "unwraps cyclic_store (RRef 10) \<and> ref_decoratorNext cyclic_store (RRef 10) = RRef 11 \<and>
   unwraps cyclic_store (RRef 11) \<and> ref_decoratorNext cyclic_store (RRef 11) = RRef 10 \<and>
   unwrapDecorators_ref cyclic_store (RRef 10) = None \<and>
   (\<forall>n. unwrapWithin n cyclic_store (RRef 10) = None)"
proof -
  have "unwrapDecorators_ref cyclic_store (RRef 10) = None"
  proof (cases "unwrapDecorators_ref cyclic_store (RRef 10)")
    case None
    then show ?thesis .
  next
    case (Some w)
    from unwraps_chain [OF Some] obtain n where "decoratorChain cyclic_store (RRef 10) n w" ..
    from chain_unwraps [OF this] cyclic_within [of "Suc n"] show ?thesis by simp
  qed
  with cyclic_steps cyclic_within show ?thesis by simp
qed

text \<open>
  C7 (as amended). On a chain of \<open>n\<close> decorators that ends in an innermost node the
  unwrapper returns that node, after \<open>n\<close> iterations (\<open>n + 1\<close> evaluations of the
  loop condition); it returns only on such chains, so the node it returns is
  determined by the input; and a decorator that is its own inner node is returned at
  once, by the identity guard.
\<close>

theorem unwrapper_on_chains:
  "(decoratorChain st v n w \<longrightarrow>
      unwrapDecorators_ref st v = Some w \<and> unwrapWithin (Suc n) st v = Some w) \<and>
   (unwrapDecorators_ref st v = Some w \<longrightarrow> (\<exists>n. decoratorChain st v n w)) \<and>
   (ref_typeOrEmpty st v \<in> set DECORATOR_WRAPPERS \<and> ref_decoratorNext st v = v \<longrightarrow>
      unwrapDecorators_ref st v = Some v \<and> unwrapWithin (Suc 0) st v = Some v)"
proof (intro conjI impI)
  assume c: "decoratorChain st v n w"
  from chain_unwraps [OF c] show "unwrapDecorators_ref st v = Some w" by (rule conjunct1)
  from chain_unwraps [OF c] show "unwrapWithin (Suc n) st v = Some w" by (rule conjunct2)
next
  assume "unwrapDecorators_ref st v = Some w"
  then show "\<exists>n. decoratorChain st v n w" by (rule unwraps_chain)
next
  assume "ref_typeOrEmpty st v \<in> set DECORATOR_WRAPPERS \<and> ref_decoratorNext st v = v"
  then have "\<not> unwraps st v" by (simp add: unwraps_def)
  then have c: "decoratorChain st v 0 v" by (rule decoratorChain.innermost)
  from chain_unwraps [OF c] show "unwrapDecorators_ref st v = Some v" by (rule conjunct1)
  from chain_unwraps [OF c] show "unwrapWithin (Suc 0) st v = Some v" by (rule conjunct2)
qed

theorem unwrapper_on_chains_witness:
  "decoratorChain chain_store (RRef 10) 2 (RRef 12) \<and>
   unwrapDecorators_ref chain_store (RRef 10) = Some (RRef 12) \<and>
   unwrapWithin 3 chain_store (RRef 10) = Some (RRef 12) \<and>
   ref_typeOrEmpty chain_store (RRef 16) \<in> set DECORATOR_WRAPPERS \<and>
   ref_decoratorNext chain_store (RRef 16) = RRef 16 \<and>
   unwrapDecorators_ref chain_store (RRef 16) = Some (RRef 16)"
proof -
  have s0: "unwraps chain_store (RRef 10)" "ref_decoratorNext chain_store (RRef 10) = RRef 11"
    and s1: "unwraps chain_store (RRef 11)" "ref_decoratorNext chain_store (RRef 11) = RRef 12"
    and s2: "\<not> unwraps chain_store (RRef 12)"
    and s6: "ref_typeOrEmpty chain_store (RRef 16) \<in> set DECORATOR_WRAPPERS"
      "ref_decoratorNext chain_store (RRef 16) = RRef 16"
    by code_simp+
  have c2: "decoratorChain chain_store (RRef 12) 0 (RRef 12)"
    by (rule decoratorChain.innermost [OF s2])
  have c1: "decoratorChain chain_store (RRef 11) (Suc 0) (RRef 12)"
    by (rule decoratorChain.wrapped [OF s1(1)]) (simp add: s1(2) c2)
  have c0: "decoratorChain chain_store (RRef 10) 2 (RRef 12)"
    unfolding numeral_2_eq_2 by (rule decoratorChain.wrapped [OF s0(1)]) (simp add: s0(2) c1)
  from unwrapper_on_chains [of chain_store "RRef 10" 2 "RRef 12"] c0
  have a: "unwrapDecorators_ref chain_store (RRef 10) = Some (RRef 12)"
    and b: "unwrapWithin 3 chain_store (RRef 10) = Some (RRef 12)"
    by (simp_all add: numeral_3_eq_3)
  from unwrapper_on_chains [of chain_store "RRef 16" 0 "RRef 16"] s6
  have c: "unwrapDecorators_ref chain_store (RRef 16) = Some (RRef 16)" by simp
  from c0 a b s6 c show ?thesis by (intro conjI)
qed

section \<open>The scanner on a store\<close>

text \<open>
  The scanner reads through the store in the same way. Its recursion is as deep as
  the structure it walks; the first argument of \<open>check_ref\<close> bounds the depth, and
  \<open>None\<close> is a walk deeper than the bound. The empty array of \<^verbatim>\<open>def?.items || []\<close>
  and of \<^verbatim>\<open>def?.options || def?.schemas || []\<close> is not allocated in the store: the
  list of its elements is the empty list.
\<close>

definition ref_isArray :: "store \<Rightarrow> refval \<Rightarrow> bool" where
  "ref_isArray st v = (case v of RRef a \<Rightarrow> (case st a of Some (SArray xs) \<Rightarrow> True | _ \<Rightarrow> False) | _ \<Rightarrow> False)"

definition ref_elements :: "store \<Rightarrow> refval \<Rightarrow> refval list" where
  "ref_elements st v = (case v of RRef a \<Rightarrow> (case st a of Some (SArray xs) \<Rightarrow> xs | _ \<Rightarrow> []) | _ \<Rightarrow> [])"

definition ref_toArray :: "store \<Rightarrow> refval \<Rightarrow> refval list" where
  "ref_toArray st v = (if ref_isArray st v then ref_elements st v else [v])"

definition ref_entries :: "store \<Rightarrow> refval \<Rightarrow> (string \<times> refval) list" where
  "ref_entries st v =
     (case v of
        RRef a \<Rightarrow>
          (case st a of
             Some (SObject fs) \<Rightarrow> fs
           | Some (SArray xs) \<Rightarrow> zip (map show_nat [0..<length xs]) xs
           | _ \<Rightarrow> [])
      | RStr s \<Rightarrow> zip (map show_nat [0..<length s]) (map (\<lambda>c. RStr [c]) s)
      | _ \<Rightarrow> [])"

definition ref_callShape :: "store \<Rightarrow> refval \<Rightarrow> refval" where
  "ref_callShape st f =
     (case f of
        RRef a \<Rightarrow> (case st a of Some (SFunction (Some r)) \<Rightarrow> r | _ \<Rightarrow> RUndefined)
      | _ \<Rightarrow> RUndefined)"

definition ref_readShape :: "store \<Rightarrow> refval \<Rightarrow> refval" where
  "ref_readShape st input =
     (if ref_typeof st input \<noteq> ''object'' \<or> input = RNull then RUndefined
      else
        let candidateShape = ref_get st input ''shape'' in
        if ref_truthy candidateShape \<and> ref_typeof st candidateShape = ''object'' then candidateShape
        else if ref_typeof st candidateShape = ''function'' then ref_callShape st candidateShape
        else
          let def = ref_readZodDefinition st input; shape = ref_optget st def ''shape'' in
          if ref_truthy shape \<and> ref_typeof st shape = ''object'' then shape
          else if ref_typeof st shape = ''function'' then ref_callShape st shape
          else RUndefined)"

definition ref_scanUnderlying :: "store \<Rightarrow> refval \<Rightarrow> refval" where
  "ref_scanUnderlying st def =
     ref_or_else (ref_optget st def ''innerType'')
       (ref_or_else (ref_optget st def ''schema'')
         (ref_or_else (ref_optget st def ''base'')
           (ref_or_else (ref_optget st def ''type'')
             (ref_or_else (ref_optget st def ''wrapped'') (ref_optget st def ''underlying'')))))"

text \<open>A loop over a list whose body may fail to return.\<close>

fun foldOption :: "('a \<Rightarrow> 's \<Rightarrow> 's option) \<Rightarrow> 'a list \<Rightarrow> 's \<Rightarrow> 's option" where
  "foldOption f [] s = Some s"
| "foldOption f (x # xs) s = (case f x s of None \<Rightarrow> None | Some s' \<Rightarrow> foldOption f xs s')"

primrec check_ref :: "nat \<Rightarrow> store \<Rightarrow> refval \<Rightarrow> string \<Rightarrow> diagnostic list \<Rightarrow> diagnostic list option" where
  "check_ref 0 st v currentPath found = None"
| "check_ref (Suc depth) st v currentPath found =
     (if \<not> ref_truthy v \<or> ref_typeof st v \<noteq> ''object'' then Some found
      else
        let def = ref_readZodDefinition st v in
        (case ref_readZodType st v of
           None \<Rightarrow> Some found
         | Some type \<Rightarrow>
             if type \<noteq> [] \<and> type \<in> set UNREPRESENTABLE_TYPES
             then Some (found @ [(type, currentPath)])
             else if type = ''object'' then
               (let shape = ref_readShape st v in
                if ref_truthy shape
                then foldOption (\<lambda>(key, field). check_ref depth st field (currentPath @ ''.'' @ key))
                       (ref_entries st shape) found
                else Some found)
             else if type = ''array'' then
               (let items = ref_or_else (ref_optget st def ''element'')
                              (ref_or_else (ref_optget st def ''items'') (ref_optget st def ''type''))
                in if ref_truthy items then check_ref depth st items (currentPath @ ''[]'') found
                   else Some found)
             else if type = ''tuple'' then
               (let items = ref_optget st def ''items'';
                    itemsArray = (if ref_truthy items then ref_toArray st items else [])
                in case foldOption
                     (\<lambda>(i, item). check_ref depth st item (currentPath @ ''['' @ show_nat i @ '']''))
                     (enumerate 0 itemsArray) found of
                     None \<Rightarrow> None
                   | Some found1 \<Rightarrow>
                       if ref_truthy (ref_optget st def ''rest'')
                       then check_ref depth st (ref_optget st def ''rest'') (currentPath @ ''[...]'') found1
                       else Some found1)
             else if type = ''union'' \<or> type = ''discriminatedunion'' then
               (let options = ref_or_else (ref_optget st def ''options'') (ref_optget st def ''schemas'');
                    optionsArray = (if ref_truthy options then ref_toArray st options else [])
                in foldOption
                     (\<lambda>(i, option). check_ref depth st option (currentPath @ ''<union['' @ show_nat i @ '']>''))
                     (enumerate 0 optionsArray) found)
             else if type = ''intersection'' then
               (case (if ref_truthy (ref_optget st def ''left'')
                      then check_ref depth st (ref_optget st def ''left'') (currentPath @ ''<left>'') found
                      else Some found) of
                  None \<Rightarrow> None
                | Some found1 \<Rightarrow>
                    if ref_truthy (ref_optget st def ''right'')
                    then check_ref depth st (ref_optget st def ''right'') (currentPath @ ''<right>'') found1
                    else Some found1)
             else if type = ''record'' then
               (let valueType = ref_or_else (ref_optget st def ''valueType'') (ref_optget st def ''values'');
                    keyType = ref_or_else (ref_optget st def ''keyType'') (ref_optget st def ''keys'')
                in case (if ref_truthy valueType
                         then check_ref depth st valueType (currentPath @ ''<values>'') found
                         else Some found) of
                     None \<Rightarrow> None
                   | Some found1 \<Rightarrow>
                       if ref_truthy keyType
                       then check_ref depth st keyType (currentPath @ ''<keys>'') found1
                       else Some found1)
             else if type = ''nullable'' \<or> type = ''optional'' then
               (let inner = ref_or_else (ref_optget st def ''innerType'') (ref_optget st def ''type'')
                in if ref_truthy inner then check_ref depth st inner currentPath found else Some found)
             else if type \<in> {''transform'', ''effects'', ''refinement'', ''pipeline'', ''pipe'',
                              ''brand'', ''branded'', ''catch'', ''default'', ''prefault'',
                              ''readonly''} then
               (let underlying = ref_scanUnderlying st def
                in if ref_truthy underlying then check_ref depth st underlying currentPath found
                   else Some found)
             else if type = ''lazy'' then Some (found @ [(''lazy'', currentPath)])
             else Some found))"

declare check_ref.simps [simp del]

text \<open>
  A recursive object as the newer library writes it, with a getter: a category with a
  name and with subcategories, an array of the category itself. No node is lazy.
\<close>

definition category_store :: store where
  "category_store =
     [30 \<mapsto> SObject [(''_zod'', RRef 31)],
      31 \<mapsto> SObject [(''def'', RRef 32)],
      32 \<mapsto> SObject [(''type'', RStr ''object''), (''shape'', RRef 33)],
      33 \<mapsto> SObject [(''name'', RRef 34), (''subcategories'', RRef 37)],
      34 \<mapsto> SObject [(''_zod'', RRef 35)],
      35 \<mapsto> SObject [(''def'', RRef 36)],
      36 \<mapsto> SObject [(''type'', RStr ''string'')],
      37 \<mapsto> SObject [(''_zod'', RRef 38)],
      38 \<mapsto> SObject [(''def'', RRef 39)],
      39 \<mapsto> SObject [(''type'', RStr ''array''), (''element'', RRef 30)]]"


lemma category_node:
  "ref_truthy (RRef 30)"
  "ref_typeof category_store (RRef 30) = ''object''"
  "ref_readZodType category_store (RRef 30) = Some ''object''"
  "ref_readShape category_store (RRef 30) = RRef 33"
  "ref_truthy (RRef 33)"
  "ref_entries category_store (RRef 33) = [(''name'', RRef 34), (''subcategories'', RRef 37)]"
  by code_simp+

lemma subcategories_node:
  "ref_truthy (RRef 37)"
  "ref_typeof category_store (RRef 37) = ''object''"
  "ref_readZodType category_store (RRef 37) = Some ''array''"
  "ref_or_else (ref_optget category_store (ref_readZodDefinition category_store (RRef 37)) ''element'')
     (ref_or_else (ref_optget category_store (ref_readZodDefinition category_store (RRef 37)) ''items'')
        (ref_optget category_store (ref_readZodDefinition category_store (RRef 37)) ''type'')) = RRef 30"
  by code_simp+

lemma check_ref_category:
  "check_ref (Suc depth) category_store (RRef 30) p found =
     (case check_ref depth category_store (RRef 34) (p @ ''.name'') found of
        None \<Rightarrow> None
      | Some found1 \<Rightarrow> check_ref depth category_store (RRef 37) (p @ ''.subcategories'') found1)"
  by (simp add: check_ref.simps category_node Let_def UNREPRESENTABLE_TYPES_def
      del: ref_typeof.simps split: option.splits)

lemma check_ref_subcategories:
  "check_ref (Suc depth) category_store (RRef 37) p found =
     check_ref depth category_store (RRef 30) (p @ ''[]'') found"
  by (simp add: check_ref.simps subcategories_node Let_def UNREPRESENTABLE_TYPES_def
      del: ref_typeof.simps)

lemma category_never_returns:
  "check_ref depth category_store (RRef 30) p found = None \<and>
   check_ref depth category_store (RRef 37) p found = None"
proof (induction depth arbitrary: p found)
  case 0
  show ?case by (simp add: check_ref.simps)
next
  case (Suc depth)
  show ?case
    by (simp only: check_ref_category check_ref_subcategories Suc) (simp split: option.splits)
qed

text \<open>
  The claim as stated has the scanner return on every cyclic structure. The cycle of
  the category passes through the fields of an object and the element of an array,
  no node on it is lazy or unrepresentable, the walk never leaves it, and no bound on
  its depth suffices.
\<close>

theorem scanner_loops_on_recursive_object:
  "\<forall>depth path found. check_ref depth category_store (RRef 30) path found = None"
  by (simp add: category_never_returns)

section \<open>Stores that hold trees\<close>

text \<open>
  A reference represents a value of \<open>jsval\<close> when the part of the store that is
  reached from it is that tree: the two models then read the same properties, and
  the code does the same on both.
\<close>

inductive represents :: "store \<Rightarrow> refval \<Rightarrow> jsval \<Rightarrow> bool" for st :: store where
  undefined: "represents st RUndefined JUndefined"
| null: "represents st RNull JNull"
| bool: "represents st (RBool b) (JBool b)"
| num: "represents st (RNum n) (JNum n)"
| str: "represents st (RStr s) (JStr s)"
| object:
    "st a = Some (SObject fs) \<Longrightarrow>
     list_all2 (\<lambda>f g. fst f = fst g \<and> represents st (snd f) (snd g)) fs gs \<Longrightarrow>
     represents st (RRef a) (JObj gs)"
| array:
    "st a = Some (SArray xs) \<Longrightarrow> list_all2 (represents st) xs ys \<Longrightarrow>
     represents st (RRef a) (JArr ys)"
| throwing: "st a = Some (SFunction None) \<Longrightarrow> represents st (RRef a) (JFun None)"
| returning:
    "st a = Some (SFunction (Some r)) \<Longrightarrow> represents st r v \<Longrightarrow>
     represents st (RRef a) (JFun (Some v))"

lemma represents_truthy: "represents st r v \<Longrightarrow> ref_truthy r = truthy v"
  by (cases rule: represents.cases) auto

lemma represents_typeof: "represents st r v \<Longrightarrow> ref_typeof st r = typeof v"
  by (cases rule: represents.cases) auto

lemma represents_nullish: "represents st r v \<Longrightarrow> ref_nullish r = nullish v"
  by (cases rule: represents.cases) (auto simp: ref_nullish_def nullish_def)

lemma represents_null: "represents st r v \<Longrightarrow> (r = RNull) = (v = JNull)"
  by (cases rule: represents.cases) auto

lemma represents_string: "represents st r v \<Longrightarrow> (r = RStr s) = (v = JStr s)"
  by (cases rule: represents.cases) auto

lemma represents_map_of:
  assumes "list_all2 (\<lambda>f g. fst f = fst g \<and> represents st (snd f) (snd g)) fs gs"
  shows "rel_option (represents st) (map_of fs k) (map_of gs k)"
  using assms by (induction rule: list_all2_induct) auto

lemma represents_get:
  assumes "represents st r v"
  shows "represents st (ref_get st r k) (get v k)"
  using assms
proof (cases rule: represents.cases)
  case (object a fs gs)
  from represents_map_of [OF object(4), of k] show ?thesis
    by (cases "map_of fs k"; cases "map_of gs k") (auto simp: object intro: represents.undefined)
qed (auto intro: represents.intros)

lemma represents_optget:
  "represents st r v \<Longrightarrow> represents st (ref_optget st r k) (optget v k)"
  by (simp add: ref_optget_def optget_def represents_nullish represents_get represents.undefined)

lemma represents_or_else:
  "represents st a v \<Longrightarrow> represents st b w \<Longrightarrow> represents st (ref_or_else a b) (or_else v w)"
  by (simp add: ref_or_else_def or_else_def represents_truthy)

lemma represents_coalesce:
  "represents st a v \<Longrightarrow> represents st b w \<Longrightarrow> represents st (ref_coalesce a b) (coalesce v w)"
  by (simp add: ref_coalesce_def coalesce_def represents_nullish)

lemma represents_readZodDefinition:
  assumes "represents st r v"
  shows "represents st (ref_readZodDefinition st r) (readZodDefinition v)"
  unfolding ref_readZodDefinition_def readZodDefinition_def
  using assms
  by (simp add: represents_typeof represents_null represents.undefined
      represents_or_else represents_optget represents_get)

lemma represents_case_string:
  assumes "represents st r v"
  shows "(case r of RStr raw \<Rightarrow> f raw | _ \<Rightarrow> None) = (case v of JStr raw \<Rightarrow> f raw | _ \<Rightarrow> None)"
  using assms by (cases rule: represents.cases) auto

lemma represents_readZodType:
  assumes "represents st r v"
  shows "ref_readZodType st r = readZodType v"
proof -
  let ?d = "ref_readZodDefinition st r" and ?e = "readZodDefinition v"
  have d: "represents st ?d ?e" using assms by (rule represents_readZodDefinition)
  have raw: "represents st
     (if ref_typeof st (ref_get st ?d ''typeName'') = ''string'' \<and> ref_truthy (ref_get st ?d ''typeName'')
      then ref_get st ?d ''typeName''
      else if ref_typeof st (ref_get st ?d ''type'') = ''string'' then ref_get st ?d ''type''
      else RBool False)
     (if typeof (get ?e ''typeName'') = ''string'' \<and> truthy (get ?e ''typeName'')
      then get ?e ''typeName''
      else if typeof (get ?e ''type'') = ''string'' then get ?e ''type''
      else JBool False)"
    using represents_typeof [OF represents_get [OF d]] represents_truthy [OF represents_get [OF d]]
    by (simp add: represents_get [OF d] represents.bool)
  show ?thesis
    unfolding ref_readZodType_def readZodType_def Let_def
    by (simp only: represents_truthy [OF d] represents_case_string [OF raw])
qed

lemma represents_typeOrEmpty: "represents st r v \<Longrightarrow> ref_typeOrEmpty st r = typeOrEmpty v"
  by (simp add: ref_typeOrEmpty_def typeOrEmpty_def represents_readZodType)

lemma represents_decoratorNext:
  assumes "represents st r v"
  shows "represents st (ref_decoratorNext st r) (decoratorNext v)"
  unfolding ref_decoratorNext_def decoratorNext_def Let_def
  by (intro represents_coalesce represents_optget represents_readZodDefinition assms)


lemma represents_unique: "represents st r v \<Longrightarrow> represents st r w \<Longrightarrow> v = w"
proof (induction arbitrary: w rule: represents.induct)
  case (object a fs gs)
  from object(3) obtain hs where w: "w = JObj hs"
    and hs: "list_all2 (\<lambda>f g. fst f = fst g \<and> represents st (snd f) (snd g)) fs hs"
    using object(1) by (cases rule: represents.cases) auto
  from object(2) hs have "gs = hs"
  proof (induction arbitrary: hs rule: list_all2_induct)
    case Nil
    then show ?case by simp
  next
    case (Cons f fs g gs)
    from Cons.prems obtain h hs' where "hs = h # hs'" "fst f = fst h" "represents st (snd f) (snd h)"
      "list_all2 (\<lambda>f g. fst f = fst g \<and> represents st (snd f) (snd g)) fs hs'"
      by (cases hs) auto
    with Cons.hyps Cons.IH [of hs'] show ?case by (auto simp: prod_eq_iff)
  qed
  with w show ?case by simp
next
  case (array a xs ys)
  from array(3) obtain zs where w: "w = JArr zs" and zs: "list_all2 (represents st) xs zs"
    using array(1) by (cases rule: represents.cases) auto
  from array(2) zs have "ys = zs"
  proof (induction arbitrary: zs rule: list_all2_induct)
    case Nil
    then show ?case by simp
  next
    case (Cons x xs y ys)
    from Cons.prems obtain z zs' where "zs = z # zs'" "represents st x z" "list_all2 (represents st) xs zs'"
      by (cases zs) auto
    with Cons.hyps Cons.IH [of zs'] show ?case by auto
  qed
  with w show ?case by simp
next
  case (throwing a)
  from throwing(2) show ?case using throwing(1) by (cases rule: represents.cases) auto
next
  case (returning a r v)
  from returning(4) show ?case using returning(1) returning(3)
    by (cases rule: represents.cases) auto
qed (auto elim: represents.cases)

text \<open>The unwrapper on a store that holds a tree returns, and returns what it returns on the tree.\<close>

lemma represents_unwrapDecorators:
  "represents st r v \<Longrightarrow>
   \<exists>w. unwrapDecorators_ref st r = Some w \<and> represents st w (unwrapDecorators v)"
proof (induction v arbitrary: r rule: unwrapDecorators.induct)
  case (1 current)
  note r = \<open>represents st r current\<close>
  have n: "represents st (ref_decoratorNext st r) (decoratorNext current)"
    using r by (rule represents_decoratorNext)
  show ?case
  proof (cases "typeOrEmpty current \<in> set DECORATOR_WRAPPERS")
    case False
    then show ?thesis using r
      by (subst unwrapDecorators_ref.simps, subst unwrapDecorators.simps)
         (simp add: represents_typeOrEmpty)
  next
    case dec: True
    then have ne: "decoratorNext current \<noteq> current" by (rule decoratorNext_differs)
    have ne': "ref_decoratorNext st r \<noteq> r"
    proof
      assume "ref_decoratorNext st r = r"
      with n have "represents st r (decoratorNext current)" by simp
      from represents_unique [OF this r] ne show False by simp
    qed
    show ?thesis
    proof (cases "truthy (decoratorNext current)")
      case False
      then show ?thesis using r dec
        by (subst unwrapDecorators_ref.simps, subst unwrapDecorators.simps)
           (simp add: represents_typeOrEmpty represents_truthy [OF n] Let_def)
    next
      case True
      from "1.IH" [OF dec refl _ n] True ne
      obtain w where "unwrapDecorators_ref st (ref_decoratorNext st r) = Some w"
        "represents st w (unwrapDecorators (decoratorNext current))" by auto
      then show ?thesis using r dec True ne ne'
        by (subst unwrapDecorators_ref.simps, subst unwrapDecorators.simps)
           (simp add: represents_typeOrEmpty represents_truthy [OF n] Let_def)
    qed
  qed
qed


section \<open>The scanner on a store, by children\<close>

text \<open>
  The same reading of \<^verbatim>\<open>check\<close> as on trees: a node is recorded, or the scanner
  descends into its children, which are computed here from the store.
\<close>

definition ref_isNode :: "store \<Rightarrow> refval \<Rightarrow> bool" where
  "ref_isNode st v = (ref_truthy v \<and> ref_typeof st v = ''object'')"

definition ref_flaggedAs :: "store \<Rightarrow> refval \<Rightarrow> string option" where
  "ref_flaggedAs st v =
     (if \<not> ref_isNode st v then None
      else (case ref_readZodType st v of
              None \<Rightarrow> None
            | Some kind \<Rightarrow>
                if kind \<in> set UNREPRESENTABLE_TYPES \<or> kind = ''lazy'' then Some kind else None))"

definition ref_indexed :: "string \<Rightarrow> string \<Rightarrow> string \<Rightarrow> refval list \<Rightarrow> (refval \<times> string) list" where
  "ref_indexed p l r xs = map (\<lambda>(i, x). (x, p @ l @ show_nat i @ r)) (enumerate 0 xs)"

definition ref_single :: "refval \<Rightarrow> string \<Rightarrow> (refval \<times> string) list" where
  "ref_single c p = (if ref_truthy c then [(c, p)] else [])"

definition ref_fieldsOf :: "store \<Rightarrow> refval \<Rightarrow> string \<Rightarrow> (refval \<times> string) list" where
  "ref_fieldsOf st shape p =
     (if ref_truthy shape
      then map (\<lambda>(key, field). (field, p @ ''.'' @ key)) (ref_entries st shape) else [])"

definition ref_arrayOrEmpty :: "store \<Rightarrow> refval \<Rightarrow> refval list" where
  "ref_arrayOrEmpty st v = (if ref_truthy v then ref_toArray st v else [])"

definition ref_childrenOfKind ::
  "store \<Rightarrow> string \<Rightarrow> refval \<Rightarrow> refval \<Rightarrow> string \<Rightarrow> (refval \<times> string) list" where
  "ref_childrenOfKind st kind def shape p =
     (if kind = ''object'' then ref_fieldsOf st shape p
      else if kind = ''array'' then
        ref_single (ref_or_else (ref_optget st def ''element'')
                      (ref_or_else (ref_optget st def ''items'') (ref_optget st def ''type'')))
          (p @ ''[]'')
      else if kind = ''tuple'' then
        ref_indexed p ''['' '']'' (ref_arrayOrEmpty st (ref_optget st def ''items'')) @
        ref_single (ref_optget st def ''rest'') (p @ ''[...]'')
      else if kind = ''union'' \<or> kind = ''discriminatedunion'' then
        ref_indexed p ''<union['' '']>''
          (ref_arrayOrEmpty st (ref_or_else (ref_optget st def ''options'') (ref_optget st def ''schemas'')))
      else if kind = ''intersection'' then
        ref_single (ref_optget st def ''left'') (p @ ''<left>'') @
        ref_single (ref_optget st def ''right'') (p @ ''<right>'')
      else if kind = ''record'' then
        ref_single (ref_or_else (ref_optget st def ''valueType'') (ref_optget st def ''values''))
          (p @ ''<values>'') @
        ref_single (ref_or_else (ref_optget st def ''keyType'') (ref_optget st def ''keys''))
          (p @ ''<keys>'')
      else if kind = ''nullable'' \<or> kind = ''optional'' then
        ref_single (ref_or_else (ref_optget st def ''innerType'') (ref_optget st def ''type'')) p
      else if kind \<in> set DECORATOR_WRAPPERS then ref_single (ref_scanUnderlying st def) p
      else [])"

definition ref_scanChildren :: "store \<Rightarrow> refval \<Rightarrow> string \<Rightarrow> (refval \<times> string) list" where
  "ref_scanChildren st v p =
     (if \<not> ref_isNode st v then []
      else (case ref_readZodType st v of
              None \<Rightarrow> []
            | Some kind \<Rightarrow>
                ref_childrenOfKind st kind (ref_readZodDefinition st v) (ref_readShape st v) p))"

lemma case_option_id: "(case x of None \<Rightarrow> None | Some y \<Rightarrow> Some y) = x"
  by (cases x) simp_all

lemma foldOption_append:
  "foldOption f (xs @ ys) s = (case foldOption f xs s of None \<Rightarrow> None | Some s' \<Rightarrow> foldOption f ys s')"
  by (induction xs arbitrary: s) (auto split: option.splits)

lemma foldOption_map: "foldOption f (map g xs) s = foldOption (\<lambda>x. f (g x)) xs s"
  by (induction xs arbitrary: s) (auto split: option.splits)

lemma foldOption_single:
  "foldOption (\<lambda>(c, q). f c q) (ref_single c p) found =
   (if ref_truthy c then f c p found else Some found)"
  by (auto simp: ref_single_def split: option.splits)

lemma foldOption_indexed:
  "foldOption (\<lambda>(c, q). f c q) (ref_indexed p l r xs) found =
   foldOption (\<lambda>(i, x). f x (p @ l @ show_nat i @ r)) (enumerate 0 xs) found"
  by (simp add: ref_indexed_def foldOption_map split_def)

lemma foldOption_fieldsOf:
  "foldOption (\<lambda>(c, q). f c q) (ref_fieldsOf st shape p) found =
   (if ref_truthy shape
    then foldOption (\<lambda>(key, field). f field (p @ ''.'' @ key)) (ref_entries st shape) found
    else Some found)"
  by (simp add: ref_fieldsOf_def foldOption_map split_def)

lemma check_ref_not_node: "\<not> ref_isNode st v \<Longrightarrow> check_ref (Suc d) st v p found = Some found"
  by (auto simp: check_ref.simps ref_isNode_def simp del: ref_typeof.simps)

lemma check_ref_no_kind: "ref_readZodType st v = None \<Longrightarrow> check_ref (Suc d) st v p found = Some found"
  by (auto simp: check_ref.simps Let_def simp del: ref_typeof.simps)

lemma check_ref_flagged:
  assumes "ref_flaggedAs st v = Some kind"
  shows "check_ref (Suc d) st v p found = Some (found @ [(kind, p)])"
proof -
  from assms have n: "ref_isNode st v" and t: "ref_readZodType st v = Some kind"
    and k: "kind \<in> set UNREPRESENTABLE_TYPES \<or> kind = ''lazy''"
    by (auto simp: ref_flaggedAs_def split: if_splits option.splits)
  from k show ?thesis
  proof
    assume "kind \<in> set UNREPRESENTABLE_TYPES"
    then show ?thesis using n t
      by (auto simp: check_ref.simps ref_isNode_def Let_def UNREPRESENTABLE_TYPES_def
          simp del: ref_typeof.simps)
  next
    assume "kind = ''lazy''"
    then show ?thesis using n t
      by (simp add: check_ref.simps ref_isNode_def Let_def UNREPRESENTABLE_TYPES_def
          del: ref_typeof.simps)
  qed
qed

lemma check_ref_descends_structural:
  assumes "ref_isNode st v" "ref_readZodType st v = Some kind" "kind \<in> set STRUCTURAL_KINDS"
  shows "check_ref (Suc d) st v p found =
         foldOption (\<lambda>(c, q). check_ref d st c q) (ref_scanChildren st v p) found"
proof -
  from assms(3) have "kind = ''object'' \<or> kind = ''array'' \<or> kind = ''tuple'' \<or> kind = ''union'' \<or>
      kind = ''discriminatedunion'' \<or> kind = ''intersection'' \<or> kind = ''record'' \<or>
      kind = ''nullable'' \<or> kind = ''optional'' \<or> kind = ''brand'' \<or> kind = ''branded'' \<or>
      kind = ''catch'' \<or> kind = ''default'' \<or> kind = ''effects'' \<or> kind = ''pipeline'' \<or>
      kind = ''pipe'' \<or> kind = ''prefault'' \<or> kind = ''readonly'' \<or> kind = ''refinement'' \<or>
      kind = ''transform''"
    by (simp add: STRUCTURAL_KINDS_def DECORATOR_WRAPPERS_def)
  then show ?thesis
    using assms(1,2)
    by (elim disjE; hypsubst;
        simp add: check_ref.simps ref_scanChildren_def ref_childrenOfKind_def ref_isNode_def Let_def
          UNREPRESENTABLE_TYPES_def DECORATOR_WRAPPERS_def ref_arrayOrEmpty_def
          foldOption_single foldOption_indexed foldOption_fieldsOf foldOption_append
          del: ref_typeof.simps cong: option.case_cong)
qed


lemma check_ref_descends_other:
  assumes "ref_isNode st v" "ref_readZodType st v = Some kind" "kind \<notin> set STRUCTURAL_KINDS"
    "kind \<notin> set UNREPRESENTABLE_TYPES" "kind \<noteq> ''lazy''"
  shows "check_ref (Suc d) st v p found = Some found" and "ref_scanChildren st v p = []"
proof -
  from assms(3) have ne: "kind \<noteq> ''object''" "kind \<noteq> ''array''" "kind \<noteq> ''tuple''" "kind \<noteq> ''union''"
      "kind \<noteq> ''discriminatedunion''" "kind \<noteq> ''intersection''" "kind \<noteq> ''record''"
      "kind \<noteq> ''nullable''" "kind \<noteq> ''optional''" "kind \<notin> set DECORATOR_WRAPPERS"
    by (simp_all add: STRUCTURAL_KINDS_def)
  have dec: "kind \<notin> {''transform'', ''effects'', ''refinement'', ''pipeline'', ''pipe'',
                              ''brand'', ''branded'', ''catch'', ''default'', ''prefault'',
                              ''readonly''}"
    using ne(10) by (simp add: DECORATOR_WRAPPERS_def)
  show "check_ref (Suc d) st v p found = Some found"
    using assms(1,2,4,5) ne(1-9) dec
    by (simp add: check_ref.simps ref_isNode_def Let_def del: insert_iff ref_typeof.simps)
  show "ref_scanChildren st v p = []"
    using assms(1,2) ne
    by (simp add: ref_scanChildren_def ref_childrenOfKind_def)
qed

lemma check_ref_step:
  "check_ref (Suc d) st v p found =
     (case ref_flaggedAs st v of
        Some kind \<Rightarrow> Some (found @ [(kind, p)])
      | None \<Rightarrow> foldOption (\<lambda>(c, q). check_ref d st c q) (ref_scanChildren st v p) found)"
proof (cases "ref_flaggedAs st v")
  case (Some kind)
  then show ?thesis by (simp only: check_ref_flagged option.case)
next
  case none: None
  have "check_ref (Suc d) st v p found =
      foldOption (\<lambda>(c, q). check_ref d st c q) (ref_scanChildren st v p) found"
  proof (cases "ref_isNode st v")
    case False
    then show ?thesis by (simp add: check_ref_not_node ref_scanChildren_def)
  next
    case n: True
    show ?thesis
    proof (cases "ref_readZodType st v")
      case None
      then show ?thesis using n by (simp add: check_ref_no_kind ref_scanChildren_def)
    next
      case (Some kind)
      from none n Some have k: "kind \<notin> set UNREPRESENTABLE_TYPES" "kind \<noteq> ''lazy''"
        by (auto simp: ref_flaggedAs_def split: if_splits)
      show ?thesis
      proof (cases "kind \<in> set STRUCTURAL_KINDS")
        case True
        with n Some show ?thesis by (rule check_ref_descends_structural)
      next
        case False
        from check_ref_descends_other [OF n Some False k] show ?thesis by simp
      qed
    qed
  qed
  with none show ?thesis by (simp only: option.case)
qed

lemma foldOption_mono:
  assumes "\<And>x s y. x \<in> set xs \<Longrightarrow> f x s = Some y \<Longrightarrow> g x s = Some y"
    and "foldOption f xs s = Some y"
  shows "foldOption g xs s = Some y"
  using assms
proof (induction xs arbitrary: s)
  case Nil
  then show ?case by simp
next
  case (Cons x xs)
  from Cons.prems(2) obtain s' where 1: "f x s = Some s'" and 2: "foldOption f xs s' = Some y"
    by (auto split: option.splits)
  from Cons.prems(1) [OF _ 1] have "g x s = Some s'" by simp
  moreover have "foldOption g xs s' = Some y"
    by (rule Cons.IH [OF _ 2]) (rule Cons.prems(1), simp_all)
  ultimately show ?case by simp
qed

lemma check_ref_Suc:
  "check_ref d st v p found = Some y \<Longrightarrow> check_ref (Suc d) st v p found = Some y"
proof (induction d arbitrary: v p found y)
  case 0
  then show ?case by (simp add: check_ref.simps)
next
  case (Suc d)
  show ?case
  proof (cases "ref_flaggedAs st v")
    case (Some kind)
    with Suc.prems show ?thesis by (simp only: check_ref_step option.case)
  next
    case None
    with Suc.prems
    have "foldOption (\<lambda>(c, q). check_ref d st c q) (ref_scanChildren st v p) found = Some y"
      by (simp only: check_ref_step option.case)
    then have "foldOption (\<lambda>(c, q). check_ref (Suc d) st c q) (ref_scanChildren st v p) found = Some y"
      by (rule foldOption_mono [rotated]) (auto intro: Suc.IH)
    with None show ?thesis by (subst check_ref_step) (simp only: option.case)
  qed
qed

lemma check_ref_deeper:
  "d \<le> d' \<Longrightarrow> check_ref d st v p found = Some y \<Longrightarrow> check_ref d' st v p found = Some y"
  by (induction d' rule: dec_induct) (auto intro: check_ref_Suc)


section \<open>The walk of the scanner\<close>

text \<open>
  The words of the specification, on a store: a node of an unrepresentable kind, or a
  lazy node, gives one diagnostic with its kind and its path and is not entered; any
  other node gives the diagnostics of its children, from left to right. The relation
  holds of a node only if this walk is finite; it does not ask whether the store has
  cycles elsewhere.
\<close>

inductive scanWalk :: "store \<Rightarrow> refval \<Rightarrow> string \<Rightarrow> diagnostic list \<Rightarrow> bool" for st :: store where
  flagged: "ref_flaggedAs st v = Some kind \<Longrightarrow> scanWalk st v p [(kind, p)]"
| descend:
    "ref_flaggedAs st v = None \<Longrightarrow>
     list_all2 (\<lambda>c ds. scanWalk st (fst c) (snd c) ds) (ref_scanChildren st v p) dss \<Longrightarrow>
     scanWalk st v p (concat dss)"

lemma foldOption_children_return:
  assumes "list_all2 (\<lambda>c ds. \<exists>d. \<forall>d'\<ge>d. \<forall>found.
              check_ref d' st (fst c) (snd c) found = Some (found @ ds)) cs dss"
  shows "\<exists>d. \<forall>d'\<ge>d. \<forall>found.
           foldOption (\<lambda>(c, q). check_ref d' st c q) cs found = Some (found @ concat dss)"
  using assms
proof (induction rule: list_all2_induct)
  case Nil
  show ?case by simp
next
  case (Cons c cs ds dss)
  from Cons.hyps(1) obtain d1 where
    1: "\<And>d' found. d1 \<le> d' \<Longrightarrow> check_ref d' st (fst c) (snd c) found = Some (found @ ds)"
    by blast
  from Cons.IH obtain d2 where
    2: "\<And>d' found. d2 \<le> d' \<Longrightarrow>
          foldOption (\<lambda>(c, q). check_ref d' st c q) cs found = Some (found @ concat dss)"
    by blast
  have "foldOption (\<lambda>(c, q). check_ref d' st c q) (c # cs) found = Some (found @ concat (ds # dss))"
    if "max d1 d2 \<le> d'" for d' found
    using that 1 [of d' found] 2 [of d' "found @ ds"] by (simp add: split_def)
  then show ?case by blast
qed

lemma scanWalk_returns:
  assumes "scanWalk st v p ds"
  shows "\<exists>d. \<forall>d'\<ge>d. \<forall>found. check_ref d' st v p found = Some (found @ ds)"
  using assms
proof (induction rule: scanWalk.induct)
  case (flagged v kind p)
  have "check_ref d' st v p found = Some (found @ [(kind, p)])" if "Suc 0 \<le> d'" for d' found
  proof -
    from that obtain n where "d' = Suc n" by (cases d') auto
    then show ?thesis by (simp add: check_ref_flagged [OF flagged])
  qed
  then show ?case by blast
next
  case (descend v p dss)
  have "list_all2 (\<lambda>c ds. \<exists>d. \<forall>d'\<ge>d. \<forall>found.
          check_ref d' st (fst c) (snd c) found = Some (found @ ds)) (ref_scanChildren st v p) dss"
    using descend(2) by (rule list_all2_mono) simp
  from foldOption_children_return [OF this] obtain d where
    d: "\<And>d' found. d \<le> d' \<Longrightarrow>
          foldOption (\<lambda>(c, q). check_ref d' st c q) (ref_scanChildren st v p) found =
          Some (found @ concat dss)"
    by blast
  have "check_ref d' st v p found = Some (found @ concat dss)" if "Suc d \<le> d'" for d' found
  proof -
    from that obtain n where n: "d' = Suc n" "d \<le> n" by (cases d') auto
    show ?thesis unfolding n(1) check_ref_step descend(1) option.case by (rule d [OF n(2)])
  qed
  then show ?case by blast
qed

lemma foldOption_children_walk:
  assumes "\<And>c q found y. (c, q) \<in> set cs \<Longrightarrow> check_ref d st c q found = Some y \<Longrightarrow>
             \<exists>ds. scanWalk st c q ds \<and> y = found @ ds"
    and "foldOption (\<lambda>(c, q). check_ref d st c q) cs found = Some y"
  shows "\<exists>dss. list_all2 (\<lambda>c ds. scanWalk st (fst c) (snd c) ds) cs dss \<and> y = found @ concat dss"
  using assms
proof (induction cs arbitrary: found)
  case Nil
  then show ?case by simp
next
  case (Cons x cs)
  obtain c q where x: "x = (c, q)" by (cases x)
  from Cons.prems(2) obtain f1 where 1: "check_ref d st c q found = Some f1"
    and 2: "foldOption (\<lambda>(c, q). check_ref d st c q) cs f1 = Some y"
    by (auto simp: x split: option.splits)
  from Cons.prems(1) [OF _ 1] obtain ds where ds: "scanWalk st c q ds" "f1 = found @ ds"
    by (auto simp: x)
  have "\<exists>dss. list_all2 (\<lambda>c ds. scanWalk st (fst c) (snd c) ds) cs dss \<and> y = f1 @ concat dss"
    by (rule Cons.IH [OF _ 2]) (rule Cons.prems(1), simp_all)
  then obtain dss where "list_all2 (\<lambda>c ds. scanWalk st (fst c) (snd c) ds) cs dss" "y = f1 @ concat dss"
    by blast
  with ds have "list_all2 (\<lambda>c ds. scanWalk st (fst c) (snd c) ds) (x # cs) (ds # dss) \<and>
      y = found @ concat (ds # dss)"
    by (simp add: x)
  then show ?case by blast
qed

lemma returns_scanWalk:
  "check_ref d st v p found = Some y \<Longrightarrow> \<exists>ds. scanWalk st v p ds \<and> y = found @ ds"
proof (induction d arbitrary: v p found y)
  case 0
  then show ?case by (simp add: check_ref.simps)
next
  case (Suc d)
  show ?case
  proof (cases "ref_flaggedAs st v")
    case (Some kind)
    with Suc.prems have "y = found @ [(kind, p)]" by (simp add: check_ref_step)
    with Some show ?thesis by (auto intro: scanWalk.flagged)
  next
    case None
    with Suc.prems
    have "foldOption (\<lambda>(c, q). check_ref d st c q) (ref_scanChildren st v p) found = Some y"
      by (simp add: check_ref_step)
    from foldOption_children_walk [OF Suc.IH this]
    obtain dss where "list_all2 (\<lambda>c ds. scanWalk st (fst c) (snd c) ds) (ref_scanChildren st v p) dss"
      "y = found @ concat dss"
      by blast
    with None show ?thesis by (auto intro: scanWalk.descend)
  qed
qed


section \<open>The scanner on a store that holds a tree\<close>

text \<open>On a store that holds a tree the walk is finite and is the walk on the tree.\<close>

lemma represents_isNode: "represents st r v \<Longrightarrow> ref_isNode st r = isNode v"
  by (simp add: ref_isNode_def isNode_def represents_truthy represents_typeof)

lemma represents_flaggedAs: "represents st r v \<Longrightarrow> ref_flaggedAs st r = flaggedAs v"
  by (simp add: ref_flaggedAs_def flaggedAs_def represents_isNode represents_readZodType)

definition sameChildren :: "store \<Rightarrow> (refval \<times> string) list \<Rightarrow> (jsval \<times> string) list \<Rightarrow> bool" where
  "sameChildren st cs cs' = list_all2 (\<lambda>c c'. represents st (fst c) (fst c') \<and> snd c = snd c') cs cs'"

lemma sameChildren_append:
  "sameChildren st as as' \<Longrightarrow> sameChildren st bs bs' \<Longrightarrow> sameChildren st (as @ bs) (as' @ bs')"
  by (simp add: sameChildren_def list_all2_appendI)

lemma sameChildren_Nil: "sameChildren st [] []"
  by (simp add: sameChildren_def)

lemma represents_single:
  "represents st c c' \<Longrightarrow> sameChildren st (ref_single c p) (single c' p)"
  by (simp add: sameChildren_def ref_single_def single_def represents_truthy)

lemma represents_enumerate:
  "list_all2 (represents st) xs ys \<Longrightarrow>
   list_all2 (\<lambda>a b. fst a = fst b \<and> represents st (snd a) (snd b)) (enumerate n xs) (enumerate n ys)"
  by (induction arbitrary: n rule: list_all2_induct) simp_all

lemma represents_indexed:
  assumes "list_all2 (represents st) xs ys"
  shows "sameChildren st (ref_indexed p l r xs) (indexed p l r ys)"
  using represents_enumerate [OF assms, of 0]
  by (auto simp: sameChildren_def ref_indexed_def indexed_def list.rel_map split_def
      elim!: list_all2_mono)

lemma represents_zip_index:
  assumes "list_all2 (represents st) xs ys"
  shows "list_all2 (\<lambda>f g. fst f = fst g \<and> represents st (snd f) (snd g))
           (zip (map show_nat [0..<length xs]) xs) (zip (map show_nat [0..<length ys]) ys)"
proof -
  from assms have l: "length xs = length ys" by (rule list_all2_lengthD)
  show ?thesis
    using assms unfolding l
    by (auto simp: list_all2_conv_all_nth)
qed

lemma represents_entries:
  assumes "represents st r v"
  shows "list_all2 (\<lambda>f g. fst f = fst g \<and> represents st (snd f) (snd g)) (ref_entries st r) (entries v)"
  using assms
proof (cases rule: represents.cases)
  case (object a fs gs)
  then show ?thesis by (simp add: ref_entries_def)
next
  case (array a xs ys)
  then show ?thesis by (simp add: ref_entries_def represents_zip_index)
next
  case (str s)
  then show ?thesis
    by (auto simp: ref_entries_def list_all2_conv_all_nth intro: represents.str)
qed (simp_all add: ref_entries_def)

lemma represents_fieldsOf:
  assumes "represents st r v"
  shows "sameChildren st (ref_fieldsOf st r p) (fieldsOf v p)"
  using represents_entries [OF assms]
  by (auto simp: sameChildren_def ref_fieldsOf_def fieldsOf_def represents_truthy [OF assms]
      list.rel_map split_def elim!: list_all2_mono)

lemma represents_toArray:
  assumes "represents st r v"
  shows "list_all2 (represents st) (ref_toArray st r) (toArray v)"
  using assms
  by (cases rule: represents.cases)
     (auto simp: ref_toArray_def toArray_def ref_isArray_def ref_elements_def intro: represents.intros)

lemma represents_arrayOrEmpty:
  assumes "represents st r v"
  shows "list_all2 (represents st) (ref_arrayOrEmpty st r) (toArray (or_else v (JArr [])))"
proof (cases "truthy v")
  case True
  with represents_toArray [OF assms] show ?thesis
    by (simp add: ref_arrayOrEmpty_def or_else_def represents_truthy [OF assms])
next
  case False
  then show ?thesis
    by (simp add: ref_arrayOrEmpty_def or_else_def represents_truthy [OF assms] toArray_def)
qed

lemma or_else_assoc: "or_else a (or_else b c) = or_else (or_else a b) c"
  by (simp add: or_else_def)

lemma represents_callShape:
  assumes "represents st f g"
  shows "represents st (ref_callShape st f) (callShape g)"
  using assms
  by (cases rule: represents.cases)
     (auto simp: ref_callShape_def callShape_def intro: represents.undefined)

lemma represents_readShape:
  assumes "represents st r v"
  shows "represents st (ref_readShape st r) (readShape v)"
proof -
  note g = represents_get [OF assms, of "''shape''"]
  note d = represents_optget [OF represents_readZodDefinition [OF assms], of "''shape''"]
  show ?thesis
    unfolding ref_readShape_def readShape_def Let_def
    using g d
    by (simp add: represents_typeof [OF assms] represents_null [OF assms]
        represents_typeof [OF g] represents_truthy [OF g]
        represents_typeof [OF d] represents_truthy [OF d]
        represents_callShape represents.undefined del: ref_typeof.simps)
qed

lemma represents_scanUnderlying:
  "represents st d e \<Longrightarrow> represents st (ref_scanUnderlying st d) (scanUnderlying e)"
  unfolding ref_scanUnderlying_def scanUnderlying_def
  by (intro represents_or_else represents_optget)

lemma represents_childrenOfKind:
  assumes "represents st d e" "represents st s t"
  shows "sameChildren st (ref_childrenOfKind st kind d s p) (childrenOfKind kind e t p)"
  unfolding ref_childrenOfKind_def childrenOfKind_def or_else_assoc [of _ _ "JArr []"]
  by (auto intro!: sameChildren_append represents_single represents_indexed represents_fieldsOf
        represents_arrayOrEmpty represents_or_else represents_optget represents_scanUnderlying
        sameChildren_Nil assms)

lemma represents_scanChildren:
  assumes "represents st r v"
  shows "sameChildren st (ref_scanChildren st r p) (scanChildren v p)"
  unfolding ref_scanChildren_def scanChildren_def
  using represents_childrenOfKind [OF represents_readZodDefinition [OF assms] represents_readShape [OF assms]]
  by (auto simp: represents_isNode [OF assms] represents_readZodType [OF assms] sameChildren_Nil
      split: option.splits)

lemma represents_scanWalk:
  "represents st r v \<Longrightarrow> scanWalk st r p (diagnosticsBelow v p)"
proof (induction v p arbitrary: r rule: diagnosticsBelow.induct)
  case (1 v p)
  note r = \<open>represents st r v\<close>
  show ?case
  proof (cases "flaggedAs v")
    case (Some kind)
    then have "ref_flaggedAs st r = Some kind" by (simp add: represents_flaggedAs [OF r])
    then have "scanWalk st r p [(kind, p)]" by (rule scanWalk.flagged)
    with Some show ?thesis by (subst diagnosticsBelow.simps) simp
  next
    case None
    then have n: "ref_flaggedAs st r = None" by (simp add: represents_flaggedAs [OF r])
    have "list_all2 (\<lambda>c c'. represents st (fst c) (fst c') \<and> snd c = snd c')
            (ref_scanChildren st r p) (scanChildren v p)"
      using represents_scanChildren [OF r, of p] by (simp add: sameChildren_def)
    then have "list_all2 (\<lambda>c c'. scanWalk st (fst c) (snd c) (diagnosticsBelow (fst c') (snd c')))
            (ref_scanChildren st r p) (scanChildren v p)"
    proof (rule list.rel_mono_strong)
      fix c c'
      assume m: "c' \<in> set (scanChildren v p)"
        and c: "represents st (fst c) (fst c') \<and> snd c = snd c'"
      from m have "(fst c', snd c') \<in> set (scanChildren v p)" by simp
      from "1.IH" [OF None this] c
      show "scanWalk st (fst c) (snd c) (diagnosticsBelow (fst c') (snd c'))" by simp
    qed
    then have "list_all2 (\<lambda>c ds. scanWalk st (fst c) (snd c) ds) (ref_scanChildren st r p)
        (map (\<lambda>(c, q). diagnosticsBelow c q) (scanChildren v p))"
      by (simp add: list.rel_map split_def)
    from scanWalk.descend [OF n this] None show ?thesis
      by (subst diagnosticsBelow.simps) simp
  qed
qed

text \<open>
  A recursive object with two ways back to itself: through a lazy node, whose getter
  returns the object, and through the value type of a set. And a store that holds the
  tree of a date node.
\<close>

definition lazy_store :: store where
  "lazy_store =
     [40 \<mapsto> SObject [(''_zod'', RRef 41)],
      41 \<mapsto> SObject [(''def'', RRef 42)],
      42 \<mapsto> SObject [(''type'', RStr ''object''), (''shape'', RRef 43)],
      43 \<mapsto> SObject [(''children'', RRef 44), (''tags'', RRef 48)],
      44 \<mapsto> SObject [(''_zod'', RRef 45)],
      45 \<mapsto> SObject [(''def'', RRef 46)],
      46 \<mapsto> SObject [(''type'', RStr ''lazy''), (''getter'', RRef 47)],
      47 \<mapsto> SFunction (Some (RRef 40)),
      48 \<mapsto> SObject [(''_zod'', RRef 49)],
      49 \<mapsto> SObject [(''def'', RRef 50)],
      50 \<mapsto> SObject [(''type'', RStr ''set''), (''valueType'', RRef 40)]]"

definition date_store :: store where
  "date_store =
     [70 \<mapsto> SObject [(''_zod'', RRef 71)],
      71 \<mapsto> SObject [(''def'', RRef 72)],
      72 \<mapsto> SObject [(''type'', RStr ''date'')]]"

text \<open>
  C8 (as amended). On a tree the scanner returns, in the order of a depth-first walk,
  one diagnostic for each node the walk reaches whose kind is in the unrepresentable
  set (set, map, date, promise, function, custom, nan, undefined, void, symbol) or is
  lazy, with that kind and the path of the node from the root; such a node is not
  entered, and the getter of a lazy node is never called. On a store of objects,
  cyclic or not, a node of such a kind is recorded at once, whatever it refers to;
  the scanner returns exactly when the walk that enters no such node is finite, and
  what it has then added to \<^verbatim>\<open>found\<close> are the diagnostics of that walk; and on a
  store that holds a tree the walk is finite and its diagnostics are those of the
  tree.
\<close>

theorem scanner_diagnostics:
  "findUnrepresentableTypes input path = diagnosticsBelow input path \<and>
   set (findUnrepresentableTypes input path) =
     {(kind, r). \<exists>w. scanReaches input path w r \<and> flaggedAs w = Some kind} \<and>
   (flaggedAs input = Some kind \<longrightarrow> findUnrepresentableTypes input path = [(kind, path)]) \<and>
   (isNode input \<and> readZodType input = Some ''lazy'' \<longrightarrow>
      findUnrepresentableTypes input path = [(''lazy'', path)]) \<and>
   (ref_flaggedAs st v = Some kind \<longrightarrow>
      check_ref (Suc depth) st v p found = Some (found @ [(kind, p)])) \<and>
   (scanWalk st v p ds \<longrightarrow>
      (\<exists>d. \<forall>d'\<ge>d. \<forall>found. check_ref d' st v p found = Some (found @ ds))) \<and>
   (check_ref depth st v p found = Some y \<longrightarrow> (\<exists>ds. scanWalk st v p ds \<and> y = found @ ds)) \<and>
   (represents st v input \<longrightarrow> scanWalk st v path (findUnrepresentableTypes input path))"
proof -
  note t = diagnostics_of_tree [of input path kind]
  note t1 = t [THEN conjunct1]
  note t2 = t [THEN conjunct2, THEN conjunct1]
  note t3 = t [THEN conjunct2, THEN conjunct2, THEN conjunct1]
  note t4 = t [THEN conjunct2, THEN conjunct2, THEN conjunct2]
  have s1: "ref_flaggedAs st v = Some kind \<longrightarrow>
      check_ref (Suc depth) st v p found = Some (found @ [(kind, p)])"
    by (rule impI) (rule check_ref_flagged)
  have s2: "scanWalk st v p ds \<longrightarrow>
      (\<exists>d. \<forall>d'\<ge>d. \<forall>found. check_ref d' st v p found = Some (found @ ds))"
    by (rule impI) (rule scanWalk_returns)
  have s3: "check_ref depth st v p found = Some y \<longrightarrow> (\<exists>ds. scanWalk st v p ds \<and> y = found @ ds)"
    by (rule impI) (rule returns_scanWalk)
  have s4: "represents st v input \<longrightarrow> scanWalk st v path (findUnrepresentableTypes input path)"
    unfolding t1 by (rule impI) (rule represents_scanWalk)
  from t1 t2 t3 t4 s1 s2 s3 s4 show ?thesis by (intro conjI)
qed

theorem scanner_diagnostics_witness:
  "flaggedAs set_of_dates = Some ''set'' \<and>
   findUnrepresentableTypes set_of_dates ''$.tags'' = [(''set'', ''$.tags'')] \<and>
   isNode lazy_node \<and> readZodType lazy_node = Some ''lazy'' \<and>
   findUnrepresentableTypes lazy_node ''$.node'' = [(''lazy'', ''$.node'')] \<and>
   findUnrepresentableTypes nested_sample ''$'' =
     [(''set'', ''$.tags''), (''date'', ''$.user.createdAt''),
      (''lazy'', ''$.user.pair[1]''), (''map'', ''$.user.pair[...]'')] \<and>
   ref_get lazy_store (ref_readZodDefinition lazy_store (RRef 44)) ''getter'' = RRef 47 \<and>
   lazy_store 47 = Some (SFunction (Some (RRef 40))) \<and>
   ref_flaggedAs lazy_store (RRef 44) = Some ''lazy'' \<and>
   check_ref (Suc 0) lazy_store (RRef 44) ''$.children'' [] = Some [(''lazy'', ''$.children'')] \<and>
   ref_get lazy_store (ref_readZodDefinition lazy_store (RRef 48)) ''valueType'' = RRef 40 \<and>
   ref_flaggedAs lazy_store (RRef 48) = Some ''set'' \<and>
   scanWalk lazy_store (RRef 40) ''$'' [(''lazy'', ''$.children''), (''set'', ''$.tags'')] \<and>
   (\<exists>d. \<forall>d'\<ge>d. \<forall>found.
      check_ref d' lazy_store (RRef 40) ''$'' found =
      Some (found @ [(''lazy'', ''$.children''), (''set'', ''$.tags'')])) \<and>
   check_ref 2 lazy_store (RRef 40) ''$'' [] = Some [(''lazy'', ''$.children''), (''set'', ''$.tags'')] \<and>
   (\<exists>ds. scanWalk lazy_store (RRef 40) ''$'' ds \<and>
      [(''lazy'', ''$.children''), (''set'', ''$.tags'')] = [] @ ds) \<and>
   represents date_store (RRef 70) (zod4 ''date'' []) \<and>
   scanWalk date_store (RRef 70) ''$.at'' (findUnrepresentableTypes (zod4 ''date'' []) ''$.at'') \<and>
   findUnrepresentableTypes (zod4 ''date'' []) ''$.at'' = [(''date'', ''$.at'')]"
proof -
  have f: "flaggedAs set_of_dates = Some ''set''" by code_simp
  have l: "isNode lazy_node \<and> readZodType lazy_node = Some ''lazy''" by code_simp
  have d: "diagnosticsBelow nested_sample ''$'' =
     [(''set'', ''$.tags''), (''date'', ''$.user.createdAt''),
      (''lazy'', ''$.user.pair[1]''), (''map'', ''$.user.pair[...]'')]"
    by code_simp
  have 1: "findUnrepresentableTypes set_of_dates ''$.tags'' = [(''set'', ''$.tags'')]"
    using scanner_diagnostics [of set_of_dates "''$.tags''" "''set''",
        THEN conjunct2, THEN conjunct2, THEN conjunct1] f
    by (rule mp)
  have 2: "findUnrepresentableTypes lazy_node ''$.node'' = [(''lazy'', ''$.node'')]"
    using scanner_diagnostics [of lazy_node "''$.node''",
        THEN conjunct2, THEN conjunct2, THEN conjunct2, THEN conjunct1] l
    by (rule mp)
  have 3: "findUnrepresentableTypes nested_sample ''$'' =
     [(''set'', ''$.tags''), (''date'', ''$.user.createdAt''),
      (''lazy'', ''$.user.pair[1]''), (''map'', ''$.user.pair[...]'')]"
    using scanner_diagnostics [of nested_sample "''$''", THEN conjunct1] d
    by (rule trans)
  note store = scanner_diagnostics [THEN conjunct2, THEN conjunct2, THEN conjunct2, THEN conjunct2]
  have g1: "ref_get lazy_store (ref_readZodDefinition lazy_store (RRef 44)) ''getter'' = RRef 47"
    by code_simp
  have g2: "lazy_store 47 = Some (SFunction (Some (RRef 40)))" by code_simp
  have g3: "ref_get lazy_store (ref_readZodDefinition lazy_store (RRef 48)) ''valueType'' = RRef 40"
    by code_simp
  have fl: "ref_flaggedAs lazy_store (RRef 44) = Some ''lazy''" by code_simp
  have fs: "ref_flaggedAs lazy_store (RRef 48) = Some ''set''" by code_simp
  have fr: "ref_flaggedAs lazy_store (RRef 40) = None" by code_simp
  have cs: "ref_scanChildren lazy_store (RRef 40) ''$'' =
      [(RRef 44, ''$.children''), (RRef 48, ''$.tags'')]"
    by code_simp
  have 4: "check_ref (Suc 0) lazy_store (RRef 44) ''$.children'' [] = Some [(''lazy'', ''$.children'')]"
    using store [of lazy_store "RRef 44" "''lazy''" 0 "''$.children''" "[]", THEN conjunct1] fl
    by simp
  have wl: "scanWalk lazy_store (RRef 44) ''$.children'' [(''lazy'', ''$.children'')]"
    using fl by (rule scanWalk.flagged)
  have ws: "scanWalk lazy_store (RRef 48) ''$.tags'' [(''set'', ''$.tags'')]"
    using fs by (rule scanWalk.flagged)
  have "scanWalk lazy_store (RRef 40) ''$''
      (concat [[(''lazy'', ''$.children'')], [(''set'', ''$.tags'')]])"
    by (rule scanWalk.descend [OF fr]) (simp add: cs wl ws)
  then have 5: "scanWalk lazy_store (RRef 40) ''$'' [(''lazy'', ''$.children''), (''set'', ''$.tags'')]"
    by simp
  have 6: "\<exists>d. \<forall>d'\<ge>d. \<forall>found.
      check_ref d' lazy_store (RRef 40) ''$'' found =
      Some (found @ [(''lazy'', ''$.children''), (''set'', ''$.tags'')])"
    using store [of lazy_store "RRef 40" _ _ "''$''" _ "[(''lazy'', ''$.children''), (''set'', ''$.tags'')]",
        THEN conjunct2, THEN conjunct1] 5
    by (rule mp)
  have 7: "check_ref 2 lazy_store (RRef 40) ''$'' [] = Some [(''lazy'', ''$.children''), (''set'', ''$.tags'')]"
    by code_simp
  have 8: "\<exists>ds. scanWalk lazy_store (RRef 40) ''$'' ds \<and>
      [(''lazy'', ''$.children''), (''set'', ''$.tags'')] = [] @ ds"
    using store [of lazy_store "RRef 40" _ 2 "''$''" "[]" _ "[(''lazy'', ''$.children''), (''set'', ''$.tags'')]",
        THEN conjunct2, THEN conjunct2, THEN conjunct1] 7
    by (rule mp)
  have s70: "date_store 70 = Some (SObject [(''_zod'', RRef 71)])"
    and s71: "date_store 71 = Some (SObject [(''def'', RRef 72)])"
    and s72: "date_store 72 = Some (SObject [(''type'', RStr ''date'')])"
    by (simp_all add: date_store_def)
  have r72: "represents date_store (RRef 72) (JObj [(''type'', JStr ''date'')])"
    by (rule represents.object [of date_store 72, OF s72]) (simp add: represents.str)
  have r71: "represents date_store (RRef 71) (JObj [(''def'', JObj [(''type'', JStr ''date'')])])"
    by (rule represents.object [of date_store 71, OF s71]) (simp add: r72)
  have 9: "represents date_store (RRef 70) (zod4 ''date'' [])"
    unfolding zod4_def by (rule represents.object [of date_store 70, OF s70]) (simp add: r71)
  have 10: "scanWalk date_store (RRef 70) ''$.at'' (findUnrepresentableTypes (zod4 ''date'' []) ''$.at'')"
    using store [of date_store "RRef 70" _ _ _ _ _ _ "zod4 ''date'' []" "''$.at''",
        THEN conjunct2, THEN conjunct2, THEN conjunct2] 9
    by (rule mp)
  have 11: "findUnrepresentableTypes (zod4 ''date'' []) ''$.at'' = [(''date'', ''$.at'')]"
    by code_simp
  from f 1 l 2 3 g1 g2 fl 4 g3 fs 5 6 7 8 9 10 11 show ?thesis by (intro conjI) simp_all
qed

section \<open>The manual converter on a store\<close>

text \<open>
  A schema that the converter builds: a constant of the module, an input value that
  is passed on by reference, a new array or a new object.
\<close>

datatype outval =
    OConst jsval
  | OInput refval
  | OArr "outval list"
  | OObj "(string \<times> outval) list"

abbreviation OUndefined :: outval where
  "OUndefined \<equiv> OConst JUndefined"

fun out_truthy :: "outval \<Rightarrow> bool" where
  "out_truthy (OConst v) = truthy v"
| "out_truthy (OInput r) = ref_truthy r"
| "out_truthy (OArr xs) = True"
| "out_truthy (OObj fs) = True"

definition ref_has_key :: "store \<Rightarrow> string \<Rightarrow> refval \<Rightarrow> bool" where
  "ref_has_key st k v =
     (case v of
        RRef a \<Rightarrow> (case st a of Some (SObject fs) \<Rightarrow> k \<in> set (map fst fs) | _ \<Rightarrow> False)
      | _ \<Rightarrow> False)"

fun ref_extractFirstLoop :: "store \<Rightarrow> refval \<Rightarrow> string list \<Rightarrow> refval" where
  "ref_extractFirstLoop st def [] = RUndefined"
| "ref_extractFirstLoop st def (key # keys) =
     (if ref_has_key st key def \<and> ref_get st def key \<noteq> RUndefined then ref_get st def key
      else ref_extractFirstLoop st def keys)"

definition ref_extractFirst :: "store \<Rightarrow> refval \<Rightarrow> string list \<Rightarrow> refval" where
  "ref_extractFirst st def keys =
     (if \<not> ref_truthy def then RUndefined else ref_extractFirstLoop st def keys)"

definition ref_coerceArray :: "store \<Rightarrow> refval \<Rightarrow> refval list" where
  "ref_coerceArray st v =
     (if ref_isArray st v then ref_elements st v else if v = RUndefined then [] else [v])"

definition ref_object_values :: "store \<Rightarrow> refval \<Rightarrow> refval list" where
  "ref_object_values st v = map snd (ref_entries st v)"

definition ref_buildLiteral :: "store \<Rightarrow> refval \<Rightarrow> outval" where
  "ref_buildLiteral st def =
     (if \<not> ref_truthy def then OUndefined
      else
        let literal = ref_extractFirst st def [''value'', ''literal''] in
        if literal = RUndefined then OUndefined
        else OObj [(''const'', OInput literal),
                   (''type'', OConst (JStr (if literal = RNull then ''null'' else ref_typeof st literal)))])"

definition ref_buildEnum :: "store \<Rightarrow> refval \<Rightarrow> outval" where
  "ref_buildEnum st def =
     (if \<not> ref_truthy def then OUndefined
      else if ref_isArray st (ref_get st def ''values'') then OObj [(''enum'', OInput (ref_get st def ''values''))]
      else if ref_isArray st (ref_get st def ''options'') then OObj [(''enum'', OInput (ref_get st def ''options''))]
      else if ref_truthy (ref_get st def ''values'') \<and> ref_typeof st (ref_get st def ''values'') = ''object''
        then OObj [(''enum'', OArr (map OInput (ref_object_values st (ref_get st def ''values''))))]
      else if ref_truthy (ref_get st def ''enum'') \<and> ref_typeof st (ref_get st def ''enum'') = ''object''
        then OObj [(''enum'', OArr (map OInput (ref_object_values st (ref_get st def ''enum''))))]
      else OUndefined)"

text \<open>The \<^verbatim>\<open>while\<close> loop of \<^verbatim>\<open>convertProperty\<close>; like the unwrapper it calls, it may not return.\<close>

definition ref_optionalNext :: "store \<Rightarrow> refval \<Rightarrow> refval option" where
  "ref_optionalNext st current =
     unwrapDecorators_ref st (ref_optget st (ref_readZodDefinition st current) ''innerType'')"

partial_function (option) optionalLoop_ref :: "store \<Rightarrow> refval \<Rightarrow> bool \<Rightarrow> (refval \<times> bool) option" where
  "optionalLoop_ref st current optional =
     (if ref_typeOrEmpty st current \<in> set OPTIONAL_WRAPPERS then
        Option.bind (ref_optionalNext st current)
          (\<lambda>nxt. if \<not> ref_truthy nxt \<or> nxt = current then Some (current, True)
                 else optionalLoop_ref st nxt True)
      else Some (current, optional))"

fun out_assign :: "(string \<times> outval) list \<Rightarrow> string \<Rightarrow> outval \<Rightarrow> (string \<times> outval) list" where
  "out_assign [] key v = [(key, v)]"
| "out_assign ((k, w) # ps) key v =
     (if k = key then (k, v) # ps else (k, w) # out_assign ps key v)"

definition out_set_property :: "(string \<times> outval) list \<Rightarrow> string \<Rightarrow> outval \<Rightarrow> (string \<times> outval) list" where
  "out_set_property properties key v =
     (if key = ''__proto__'' then properties else out_assign properties key v)"

fun objectLoop_ref ::
  "(refval \<Rightarrow> (outval \<times> bool) option) \<Rightarrow> (string \<times> refval) list \<Rightarrow> (string \<times> outval) list \<Rightarrow>
   string list \<Rightarrow> outval option"
where
  "objectLoop_ref cp [] properties required =
     Some (OObj [(''type'', OConst (JStr ''object'')), (''properties'', OObj properties),
                 (''required'', OConst (JArr (map JStr required))),
                 (''additionalProperties'', OConst (JBool False))])"
| "objectLoop_ref cp ((key, field) # rest) properties required =
     (case cp field of
        None \<Rightarrow> None
      | Some (schema, optional) \<Rightarrow>
          if \<not> out_truthy schema then Some OUndefined
          else objectLoop_ref cp rest (out_set_property properties key schema)
                 (if \<not> optional then required @ [key] else required))"

text \<open>
  The builders, with the converter of a node as their first argument \<open>cs\<close>: it is
  \<^verbatim>\<open>convertSchema\<close> one call deeper.
\<close>

definition convertProperty_ref ::
  "(refval \<Rightarrow> outval option) \<Rightarrow> store \<Rightarrow> refval \<Rightarrow> (outval \<times> bool) option" where
  "convertProperty_ref cs st v =
     (case unwrapDecorators_ref st v of
        None \<Rightarrow> None
      | Some unwrapped \<Rightarrow>
          (case optionalLoop_ref st unwrapped False of
             None \<Rightarrow> None
           | Some (current, optional) \<Rightarrow>
               (case cs current of None \<Rightarrow> None | Some schema \<Rightarrow> Some (schema, optional))))"

definition buildObjectSchema_ref :: "(refval \<Rightarrow> outval option) \<Rightarrow> store \<Rightarrow> refval \<Rightarrow> outval option" where
  "buildObjectSchema_ref cs st v =
     (let shape = ref_readShape st v in
      if \<not> ref_truthy shape then Some OUndefined
      else objectLoop_ref (convertProperty_ref cs st) (ref_entries st shape) [] [])"

fun mapOption :: "('a \<Rightarrow> 'b option) \<Rightarrow> 'a list \<Rightarrow> 'b list option" where
  "mapOption f [] = Some []"
| "mapOption f (x # xs) =
     (case f x of
        None \<Rightarrow> None
      | Some y \<Rightarrow> (case mapOption f xs of None \<Rightarrow> None | Some ys \<Rightarrow> Some (y # ys)))"

definition buildArraySchema_ref :: "(refval \<Rightarrow> outval option) \<Rightarrow> store \<Rightarrow> refval \<Rightarrow> outval option" where
  "buildArraySchema_ref cs st def =
     (case cs (ref_extractFirst st def [''element'', ''items'', ''type'']) of
        None \<Rightarrow> None
      | Some items \<Rightarrow>
          Some (if out_truthy items
                then OObj [(''type'', OConst (JStr ''array'')), (''items'', items)]
                else OUndefined))"

definition buildTupleSchema_ref :: "(refval \<Rightarrow> outval option) \<Rightarrow> store \<Rightarrow> refval \<Rightarrow> outval option" where
  "buildTupleSchema_ref cs st def =
     (case mapOption cs (ref_coerceArray st (ref_optget st def ''items'')) of
        None \<Rightarrow> None
      | Some converted \<Rightarrow>
          (let items = filter out_truthy converted in
           Some (if length items = 0 then OUndefined
                 else
                   let schema = [(''type'', OConst (JStr ''array'')), (''items'', OArr items),
                                 (''minItems'', OConst (JNum (int (length items))))]
                   in if \<not> ref_truthy (ref_optget st def ''rest'')
                      then OObj (schema @ [(''maxItems'', OConst (JNum (int (length items))))])
                      else OObj schema)))"

definition buildUnionSchema_ref :: "(refval \<Rightarrow> outval option) \<Rightarrow> store \<Rightarrow> refval \<Rightarrow> outval option" where
  "buildUnionSchema_ref cs st def =
     (case mapOption cs (ref_coerceArray st
             (ref_coalesce (ref_optget st def ''options'') (ref_optget st def ''schemas''))) of
        None \<Rightarrow> None
      | Some converted \<Rightarrow>
          (let options = filter out_truthy converted in
           Some (if length options \<noteq> 0 then OObj [(''anyOf'', OArr options)] else OUndefined)))"

definition buildIntersectionSchema_ref ::
  "(refval \<Rightarrow> outval option) \<Rightarrow> store \<Rightarrow> refval \<Rightarrow> outval option" where
  "buildIntersectionSchema_ref cs st def =
     (case cs (ref_optget st def ''left'') of
        None \<Rightarrow> None
      | Some left \<Rightarrow>
          (case cs (ref_optget st def ''right'') of
             None \<Rightarrow> None
           | Some right \<Rightarrow>
               Some (if out_truthy left \<and> out_truthy right then OObj [(''allOf'', OArr [left, right])]
                     else OUndefined)))"

definition buildRecordSchema_ref :: "(refval \<Rightarrow> outval option) \<Rightarrow> store \<Rightarrow> refval \<Rightarrow> outval option" where
  "buildRecordSchema_ref cs st def =
     (case cs (ref_coalesce (ref_optget st def ''valueType'') (ref_optget st def ''values'')) of
        None \<Rightarrow> None
      | Some valueSchema \<Rightarrow>
          Some (if out_truthy valueSchema
                then OObj [(''type'', OConst (JStr ''object'')), (''additionalProperties'', valueSchema)]
                else OUndefined))"

definition buildMapSchema_ref :: "(refval \<Rightarrow> outval option) \<Rightarrow> store \<Rightarrow> refval \<Rightarrow> outval option" where
  "buildMapSchema_ref cs st def =
     (case cs (ref_coalesce (ref_optget st def ''valueType'') (ref_optget st def ''values'')) of
        None \<Rightarrow> None
      | Some valueSchema \<Rightarrow>
          Some (if out_truthy valueSchema
                then OObj [(''type'', OConst (JStr ''array'')), (''items'', valueSchema)]
                else OUndefined))"

definition buildSetSchema_ref :: "(refval \<Rightarrow> outval option) \<Rightarrow> store \<Rightarrow> refval \<Rightarrow> outval option" where
  "buildSetSchema_ref cs st def =
     (case cs (ref_optget st def ''valueType'') of
        None \<Rightarrow> None
      | Some valueSchema \<Rightarrow>
          Some (if out_truthy valueSchema
                then OObj [(''type'', OConst (JStr ''array'')), (''items'', valueSchema),
                           (''uniqueItems'', OConst (JBool True))]
                else OUndefined))"

definition buildNullableSchema_ref :: "(refval \<Rightarrow> outval option) \<Rightarrow> store \<Rightarrow> refval \<Rightarrow> outval option" where
  "buildNullableSchema_ref cs st def =
     (case cs (ref_coalesce (ref_optget st def ''innerType'') (ref_optget st def ''type'')) of
        None \<Rightarrow> None
      | Some inner \<Rightarrow>
          Some (if out_truthy inner
                then OObj [(''anyOf'', OArr [inner, OConst (JObj [(''type'', JStr ''null'')])])]
                else OUndefined))"

text \<open>
  \<^verbatim>\<open>convertSchema\<close>. Its recursion is as deep as the structure it converts; the first
  argument bounds the depth, and \<open>None\<close> is a conversion that is deeper than the bound
  or whose unwrapper does not return.
\<close>

primrec convertSchema_ref :: "nat \<Rightarrow> store \<Rightarrow> refval \<Rightarrow> outval option" where
  "convertSchema_ref 0 st v = None"
| "convertSchema_ref (Suc depth) st v =
     (if v = RUndefined then Some OUndefined
      else
        (case unwrapDecorators_ref st v of
           None \<Rightarrow> None
         | Some unwrapped \<Rightarrow>
             (let def = ref_readZodDefinition st unwrapped in
              case ref_readZodType st unwrapped of
                None \<Rightarrow> Some OUndefined
              | Some type \<Rightarrow>
                  if type = [] then Some OUndefined
                  else (case simpleType type of
                    Some entry \<Rightarrow> Some (OConst entry)
                  | None \<Rightarrow>
                      if type = ''object''
                        then buildObjectSchema_ref (convertSchema_ref depth st) st unwrapped
                      else if type = ''array'' then buildArraySchema_ref (convertSchema_ref depth st) st def
                      else if type = ''tuple'' then buildTupleSchema_ref (convertSchema_ref depth st) st def
                      else if type = ''union'' then buildUnionSchema_ref (convertSchema_ref depth st) st def
                      else if type = ''intersection''
                        then buildIntersectionSchema_ref (convertSchema_ref depth st) st def
                      else if type = ''literal'' then Some (ref_buildLiteral st def)
                      else if type = ''enum'' \<or> type = ''nativeenum'' then Some (ref_buildEnum st def)
                      else if type = ''record'' then buildRecordSchema_ref (convertSchema_ref depth st) st def
                      else if type = ''map'' then buildMapSchema_ref (convertSchema_ref depth st) st def
                      else if type = ''set'' then buildSetSchema_ref (convertSchema_ref depth st) st def
                      else if type = ''nullable''
                        then buildNullableSchema_ref (convertSchema_ref depth st) st def
                      else Some OUndefined))))"

declare convertSchema_ref.simps [simp del]


section \<open>Optional wrappers without an inner node, on a store\<close>







text \<open>The two loops are evaluated by their defining equations.\<close>

declare unwrapDecorators_ref.simps [code]
declare optionalLoop_ref.simps [code]





section \<open>The manual converter on sample stores\<close>

text \<open>
  The first case of the converter's test suite, laid out in a store: the converter
  on the store builds the schema that the converter on trees builds.
\<close>

definition person_store :: store where
  "person_store =
     [100 \<mapsto> SObject [(''_def'', RRef 101)],
      101 \<mapsto> SObject [(''typeName'', RStr ''ZodObject''), (''shape'', RRef 102)],
      102 \<mapsto> SFunction (Some (RRef 103)),
      103 \<mapsto> SObject [(''name'', RRef 104), (''age'', RRef 106)],
      104 \<mapsto> SObject [(''_def'', RRef 105)],
      105 \<mapsto> SObject [(''typeName'', RStr ''ZodString'')],
      106 \<mapsto> SObject [(''_def'', RRef 107)],
      107 \<mapsto> SObject [(''typeName'', RStr ''ZodOptional''), (''innerType'', RRef 108)],
      108 \<mapsto> SObject [(''_def'', RRef 109)],
      109 \<mapsto> SObject [(''typeName'', RStr ''ZodNumber'')]]"

lemma person_on_store:
  "convertSchema_ref 2 person_store (RRef 100) =
     Some (OObj [(''type'', OConst (JStr ''object'')),
                 (''properties'', OObj [(''name'', OConst (JObj [(''type'', JStr ''string'')])),
                                        (''age'', OConst (JObj [(''type'', JStr ''number'')]))]),
                 (''required'', OConst (JArr [JStr ''name''])),
                 (''additionalProperties'', OConst (JBool False))]) \<and>
   convertSchema person_sample =
     JObj [(''type'', JStr ''object''),
           (''properties'', JObj [(''name'', JObj [(''type'', JStr ''string'')]),
                                  (''age'', JObj [(''type'', JStr ''number'')])]),
           (''required'', JArr [JStr ''name'']),
           (''additionalProperties'', JBool False)]"
  by code_simp

text \<open>
  On the recursive category the manual converter does not return either: the object
  converts its field \<^verbatim>\<open>subcategories\<close>, the array converts its element, which is the
  object. The entry point calls \<^verbatim>\<open>buildObjectSchema\<close> outside its \<^verbatim>\<open>try\<close> block, so
  what is said of the entry point above is said of finite trees.
\<close>

lemma category_conversion:
  "unwrapDecorators_ref category_store (RRef 30) = Some (RRef 30)"
  "ref_readZodType category_store (RRef 30) = Some ''object''"
  "unwrapDecorators_ref category_store (RRef 34) = Some (RRef 34)"
  "optionalLoop_ref category_store (RRef 34) False = Some (RRef 34, False)"
  "unwrapDecorators_ref category_store (RRef 37) = Some (RRef 37)"
  "optionalLoop_ref category_store (RRef 37) False = Some (RRef 37, False)"
  "ref_readZodType category_store (RRef 37) = Some ''array''"
  "ref_extractFirst category_store (ref_readZodDefinition category_store (RRef 37))
     [''element'', ''items'', ''type''] = RRef 30"
  "simpleType ''object'' = None"
  "simpleType ''array'' = None"
  by code_simp+

lemma convertSchema_ref_category:
  "convertSchema_ref (Suc depth) category_store (RRef 30) =
     (case convertSchema_ref depth category_store (RRef 34) of
        None \<Rightarrow> None
      | Some name \<Rightarrow>
          if \<not> out_truthy name then Some OUndefined
          else (case convertSchema_ref depth category_store (RRef 37) of
                  None \<Rightarrow> None
                | Some subcategories \<Rightarrow>
                    if \<not> out_truthy subcategories then Some OUndefined
                    else Some (OObj [(''type'', OConst (JStr ''object'')),
                                     (''properties'', OObj [(''name'', name),
                                                            (''subcategories'', subcategories)]),
                                     (''required'', OConst (JArr [JStr ''name'', JStr ''subcategories''])),
                                     (''additionalProperties'', OConst (JBool False))])))"
  by (simp add: convertSchema_ref.simps category_conversion category_node buildObjectSchema_ref_def
      convertProperty_ref_def out_set_property_def Let_def split: option.splits)

lemma convertSchema_ref_subcategories:
  "convertSchema_ref (Suc depth) category_store (RRef 37) =
     (case convertSchema_ref depth category_store (RRef 30) of
        None \<Rightarrow> None
      | Some items \<Rightarrow>
          Some (if out_truthy items
                then OObj [(''type'', OConst (JStr ''array'')), (''items'', items)]
                else OUndefined))"
  by (simp add: convertSchema_ref.simps category_conversion buildArraySchema_ref_def Let_def)

lemma convertSchema_ref_name:
  "convertSchema_ref (Suc depth) category_store (RRef 34) = Some (OConst (JObj [(''type'', JStr ''string'')]))"
  by code_simp

lemma manual_path_loops_on_recursive_object:
  "convertSchema_ref depth category_store (RRef 30) = None \<and>
   convertSchema_ref depth category_store (RRef 37) = None \<and>
   buildObjectSchema_ref (convertSchema_ref depth category_store) category_store (RRef 30) = None"
proof -
  have q: "convertSchema_ref n category_store (RRef 30) = None \<and>
      convertSchema_ref n category_store (RRef 37) = None" for n
  proof (induction n)
    case 0
    show ?case by (simp add: convertSchema_ref.simps)
  next
    case (Suc n)
    then show ?case
      by (cases n)
         (simp_all add: convertSchema_ref_category convertSchema_ref_subcategories
            convertSchema_ref_name convertSchema_ref.simps(1))
  qed
  have "buildObjectSchema_ref (convertSchema_ref depth category_store) category_store (RRef 30) =
      convertSchema_ref (Suc depth) category_store (RRef 30)"
    by (simp add: convertSchema_ref.simps category_conversion)
  with q [of depth] q [of "Suc depth"] show ?thesis by simp
qed

end
